theory Spec2Isabelle
  imports Main "HOL-Library.Word" "HOL-Library.Sublist"
begin

section \<open>Data model of the multishard mutation query\<close>

text \<open>
  The embedding follows \<^verbatim>\<open>multishard_mutation_query.cc\<close>. Shard ids index the vector
  \<^verbatim>\<open>_readers\<close>; \<^verbatim>\<open>size_t\<close> counters are 64-bit words, so that additions wrap as they do
  in the source.
\<close>

type_synonym shard_id = nat
type_synonym size_t = "64 word"

text \<open>\<^verbatim>\<open>utils::UUID\<close>: most and least significant 64 bits; \<^verbatim>\<open>utils::UUID{}\<close> is all zero.\<close>

type_synonym UUID = "64 word \<times> 64 word"

definition null_UUID :: UUID where
  "null_UUID = (0, 0)"

record decorated_key =
  token :: int
  partition_key :: nat

text \<open>
  The pieces of a mutation stream. The source asks each piece for two footprints, both computed
  outside this file: \<^verbatim>\<open>piece.memory_usage(schema)\<close> and, once the piece is wrapped in a
  \<^verbatim>\<open>mutation_fragment_v2\<close>, \<^verbatim>\<open>mf.memory_usage()\<close>. A piece carries both numbers.
\<close>

record partition_start =
  key :: decorated_key
  ps_memory_usage :: size_t
  ps_fragment_memory_usage :: size_t

record static_row =
  sr_cells :: nat
  sr_memory_usage :: size_t
  sr_fragment_memory_usage :: size_t

record clustering_row =
  cr_key :: nat
  cr_fragment_memory_usage :: size_t

record range_tombstone_change =
  rtc_position :: nat
  rtc_memory_usage :: size_t
  rtc_fragment_memory_usage :: size_t

datatype mutation_fragment_v2 =
    MF_partition_start partition_start
  | MF_static_row static_row
  | MF_clustering_row clustering_row
  | MF_range_tombstone_change range_tombstone_change
  | MF_partition_end size_t

fun is_partition_start :: "mutation_fragment_v2 \<Rightarrow> bool" where
  "is_partition_start (MF_partition_start ps) = True"
| "is_partition_start mf = False"

fun memory_usage :: "mutation_fragment_v2 \<Rightarrow> size_t" where
  "memory_usage (MF_partition_start ps) = ps_fragment_memory_usage ps"
| "memory_usage (MF_static_row sr) = sr_fragment_memory_usage sr"
| "memory_usage (MF_clustering_row cr) = cr_fragment_memory_usage cr"
| "memory_usage (MF_range_tombstone_change rtc) = rtc_fragment_memory_usage rtc"
| "memory_usage (MF_partition_end n) = n"

text \<open>
  \<^verbatim>\<open>sharder.shard_of(mf.as_partition_start().key().token())\<close>, for a fragment that is a
  partition start. The sharder is the schema's, a function from tokens to shard ids.
\<close>

fun shard_of_fragment :: "(int \<Rightarrow> shard_id) \<Rightarrow> mutation_fragment_v2 \<Rightarrow> shard_id" where
  "shard_of_fragment sharder (MF_partition_start ps) = sharder (token (key ps))"
| "shard_of_fragment sharder mf = 0"

datatype reader_state = inexistent | successful_lookup | used | saving

text \<open>
  A \<^verbatim>\<open>reader_permit\<close> is a handle on shared state: \<^verbatim>\<open>operator==\<close> compares the identity
  of that state, here \<open>permit_id\<close>. \<open>permit_semaphore\<close> names the semaphore the permit was
  obtained from.
\<close>

record reader_permit =
  permit_id :: nat
  permit_semaphore :: nat
  permit_max_result_size :: "nat option"

type_synonym inactive_read_handle = nat
type_synonym partition_range = "int \<times> int"
type_synonym partition_slice = nat
type_synonym tracked_buffer = "mutation_fragment_v2 list"

record remote_parts =
  rp_permit :: reader_permit
  rp_range :: "partition_range option"
  rp_slice :: "partition_slice option"
  rp_read_operation :: bool
  rp_handle :: "inactive_read_handle option"
  rp_buffer :: "tracked_buffer option"

record reader_meta =
  state :: reader_state
  rparts :: "remote_parts option"
  dismantled_buffer :: "tracked_buffer option"

text \<open>\<^verbatim>\<open>reader_meta() = default\<close>: inexistent, no remote parts, no dismantled buffer.\<close>

definition default_reader_meta :: reader_meta where
  "default_reader_meta = \<lparr>state = inexistent, rparts = None, dismantled_buffer = None\<rparr>"

definition get_dismantled_buffer :: "reader_meta \<Rightarrow> tracked_buffer" where
  "get_dismantled_buffer rm = (case dismantled_buffer rm of None \<Rightarrow> [] | Some b \<Rightarrow> b)"

text \<open>
  \<^verbatim>\<open>rm.get_dismantled_buffer(permit).emplace_front(mf)\<close>: the buffer is created when absent,
  then the fragment goes to its front.
\<close>

definition emplace_front :: "mutation_fragment_v2 \<Rightarrow> reader_meta \<Rightarrow> reader_meta" where
  "emplace_front mf rm = rm\<lparr>dismantled_buffer := Some (mf # get_dismantled_buffer rm)\<rparr>"

definition touch_dismantled_buffer :: "reader_meta \<Rightarrow> reader_meta" where
  "touch_dismantled_buffer rm = rm\<lparr>dismantled_buffer := Some (get_dismantled_buffer rm)\<rparr>"

record dismantle_buffer_stats =
  partitions :: size_t
  fragments :: size_t
  bytes :: size_t
  discarded_partitions :: size_t
  discarded_fragments :: size_t
  discarded_bytes :: size_t

definition no_stats :: dismantle_buffer_stats where
  "no_stats = \<lparr>partitions = 0, fragments = 0, bytes = 0,
     discarded_partitions = 0, discarded_fragments = 0, discarded_bytes = 0\<rparr>"

definition add :: "mutation_fragment_v2 \<Rightarrow> dismantle_buffer_stats \<Rightarrow> dismantle_buffer_stats" where
  "add mf s = s\<lparr>partitions := partitions s + (if is_partition_start mf then 1 else 0),
     fragments := fragments s + 1, bytes := bytes s + memory_usage mf\<rparr>"

definition add_discarded ::
    "mutation_fragment_v2 \<Rightarrow> dismantle_buffer_stats \<Rightarrow> dismantle_buffer_stats" where
  "add_discarded mf s =
     s\<lparr>discarded_partitions := discarded_partitions s + (if is_partition_start mf then 1 else 0),
       discarded_fragments := discarded_fragments s + 1,
       discarded_bytes := discarded_bytes s + memory_usage mf\<rparr>"

text \<open>The overloads of \<^verbatim>\<open>add\<close> and \<^verbatim>\<open>add_discarded\<close> that take a piece and the schema.\<close>

definition add_rtc :: "range_tombstone_change \<Rightarrow> dismantle_buffer_stats \<Rightarrow> dismantle_buffer_stats" where
  "add_rtc rtc s = s\<lparr>fragments := fragments s + 1, bytes := bytes s + rtc_memory_usage rtc\<rparr>"

definition add_sr :: "static_row \<Rightarrow> dismantle_buffer_stats \<Rightarrow> dismantle_buffer_stats" where
  "add_sr sr s = s\<lparr>fragments := fragments s + 1, bytes := bytes s + sr_memory_usage sr\<rparr>"

definition add_ps :: "partition_start \<Rightarrow> dismantle_buffer_stats \<Rightarrow> dismantle_buffer_stats" where
  "add_ps ps s = s\<lparr>partitions := partitions s + 1, fragments := fragments s + 1,
     bytes := bytes s + ps_memory_usage ps\<rparr>"

definition add_discarded_rtc ::
    "range_tombstone_change \<Rightarrow> dismantle_buffer_stats \<Rightarrow> dismantle_buffer_stats" where
  "add_discarded_rtc rtc s = s\<lparr>discarded_fragments := discarded_fragments s + 1,
     discarded_bytes := discarded_bytes s + rtc_memory_usage rtc\<rparr>"

definition add_discarded_sr :: "static_row \<Rightarrow> dismantle_buffer_stats \<Rightarrow> dismantle_buffer_stats" where
  "add_discarded_sr sr s = s\<lparr>discarded_fragments := discarded_fragments s + 1,
     discarded_bytes := discarded_bytes s + sr_memory_usage sr\<rparr>"

definition add_discarded_ps ::
    "partition_start \<Rightarrow> dismantle_buffer_stats \<Rightarrow> dismantle_buffer_stats" where
  "add_discarded_ps ps s = s\<lparr>discarded_partitions := discarded_partitions s + 1,
     discarded_fragments := discarded_fragments s + 1,
     discarded_bytes := discarded_bytes s + ps_memory_usage ps\<rparr>"

section \<open>Dismantling the combined buffer\<close>

text \<open>
  The local state of the loop of \<^verbatim>\<open>dismantle_combined_buffer\<close>: the scratch list
  \<^verbatim>\<open>tmp_buffer\<close>, the statistics and the vector \<^verbatim>\<open>_readers\<close>.
\<close>

type_synonym dismantle_state =
  "mutation_fragment_v2 list \<times> dismantle_buffer_stats \<times> reader_meta list"

text \<open>
  \<^verbatim>\<open>for (auto& smf : tmp_buffer) { stats.add(smf); shard_buffer.emplace_front(std::move(smf)); }\<close>
  on the reader of one shard.
\<close>

fun move_to_front ::
    "mutation_fragment_v2 list \<Rightarrow> dismantle_buffer_stats \<times> reader_meta \<Rightarrow>
     dismantle_buffer_stats \<times> reader_meta" where
  "move_to_front [] (stats, rm) = (stats, rm)"
| "move_to_front (smf # tmp) (stats, rm) = move_to_front tmp (add smf stats, emplace_front smf rm)"

text \<open>One iteration of the loop, on the fragment \<^verbatim>\<open>*rit\<close>.\<close>

definition dismantle_step ::
    "(int \<Rightarrow> shard_id) \<Rightarrow> mutation_fragment_v2 \<Rightarrow> dismantle_state \<Rightarrow> dismantle_state" where
  "dismantle_step sharder mf st =
     (case st of (tmp_buffer, stats, readers) \<Rightarrow>
        if is_partition_start mf then
          (let shard = shard_of_fragment sharder mf in
           if state (readers ! shard) \<noteq> saving then
             ([], add_discarded mf (fold add_discarded tmp_buffer stats), readers)
           else
             (case move_to_front tmp_buffer (stats, touch_dismantled_buffer (readers ! shard)) of
                (stats', rm) \<Rightarrow> ([], add mf stats', readers[shard := emplace_front mf rm])))
        else (tmp_buffer @ [mf], stats, readers))"

text \<open>
  The whole function: the reverse walk over \<^verbatim>\<open>combined_buffer\<close>, then the fragments left in
  the scratch list go to the shard of \<^verbatim>\<open>pkey\<close>, whatever the state of its reader.
\<close>

definition dismantle_combined_buffer ::
    "(int \<Rightarrow> shard_id) \<Rightarrow> reader_meta list \<Rightarrow> tracked_buffer \<Rightarrow> decorated_key \<Rightarrow>
     dismantle_buffer_stats \<times> reader_meta list" where
  "dismantle_combined_buffer sharder readers combined_buffer pkey =
     (case fold (dismantle_step sharder) (rev combined_buffer) ([], no_stats, readers) of
        (tmp_buffer, stats, readers') \<Rightarrow>
          (let shard = sharder (token pkey) in
           case move_to_front tmp_buffer (stats, touch_dismantled_buffer (readers' ! shard)) of
             (stats', rm) \<Rightarrow> (stats', readers'[shard := rm])))"

section \<open>Dismantling the compaction state\<close>

text \<open>
  \<^verbatim>\<open>detached_compaction_state\<close>: the start of the partition being compacted, its static row
  and the range tombstone change in effect, when there are any.
\<close>

record detached_compaction_state =
  cs_partition_start :: partition_start
  cs_static_row :: "static_row option"
  cs_current_tombstone :: "range_tombstone_change option"

definition dismantle_compaction_state ::
    "(int \<Rightarrow> shard_id) \<Rightarrow> reader_meta list \<Rightarrow> detached_compaction_state \<Rightarrow>
     dismantle_buffer_stats \<times> reader_meta list" where
  "dismantle_compaction_state sharder readers compaction_state =
     (let shard = sharder (token (key (cs_partition_start compaction_state)));
          rtc_opt = cs_current_tombstone compaction_state
      in if state (readers ! shard) \<noteq> saving then
           (let stats1 = (case rtc_opt of None \<Rightarrow> no_stats
                          | Some rtc \<Rightarrow> add_discarded_rtc rtc no_stats);
                stats2 = (case cs_static_row compaction_state of None \<Rightarrow> stats1
                          | Some sr \<Rightarrow> add_discarded_sr sr stats1)
            in (add_discarded_ps (cs_partition_start compaction_state) stats2, readers))
         else
           (let rm0 = touch_dismantled_buffer (readers ! shard);
                (stats1, rm1) = (case rtc_opt of None \<Rightarrow> (no_stats, rm0)
                   | Some rtc \<Rightarrow>
                       (add_rtc rtc no_stats, emplace_front (MF_range_tombstone_change rtc) rm0));
                (stats2, rm2) = (case cs_static_row compaction_state of None \<Rightarrow> (stats1, rm1)
                   | Some sr \<Rightarrow> (add_sr sr stats1, emplace_front (MF_static_row sr) rm1))
            in (add_ps (cs_partition_start compaction_state) stats2,
                readers[shard :=
                  emplace_front (MF_partition_start (cs_partition_start compaction_state)) rm2])))"

section \<open>Readers, queriers and the per-shard database\<close>

text \<open>
  What the coordinator uses of a \<^verbatim>\<open>flat_mutation_reader_v2\<close>: its permit and its buffer.
  \<open>reader_source\<close> stands for the position of the reader in its data source.
\<close>

record flat_mutation_reader_v2 =
  reader_permit_of :: reader_permit
  reader_buffer :: tracked_buffer
  reader_source :: nat

definition buffer_size :: "flat_mutation_reader_v2 \<Rightarrow> size_t" where
  "buffer_size reader = sum_list (map memory_usage (reader_buffer reader))"

definition unpop_mutation_fragment ::
    "mutation_fragment_v2 \<Rightarrow> flat_mutation_reader_v2 \<Rightarrow> flat_mutation_reader_v2" where
  "unpop_mutation_fragment mf reader = reader\<lparr>reader_buffer := mf # reader_buffer reader\<rparr>"

record shard_mutation_querier =
  q_query_ranges :: "partition_range list"
  q_reader_range :: "partition_range option"
  q_reader_slice :: "partition_slice option"
  q_reader :: flat_mutation_reader_v2
  q_permit :: reader_permit
  q_last_pkey :: decorated_key
  q_last_ckey :: "nat option"

record database_stats =
  multishard_query_unpopped_fragments :: "64 word"
  multishard_query_unpopped_bytes :: "64 word"
  multishard_query_failed_reader_saves :: "64 word"
  total_reads :: "64 word"
  total_reads_failed :: "64 word"
  short_mutation_queries :: "64 word"

text \<open>
  The part of \<^verbatim>\<open>replica::database\<close> that the coordinator reaches on a shard: the reader
  concurrency semaphore with the inactive reads registered on it, the querier cache, the
  counters, and the readers closed so far. An inactive read that was evicted is absent.
\<close>

record database =
  semaphore_id :: nat
  inactive_reads :: "(inactive_read_handle \<times> flat_mutation_reader_v2) list"
  next_handle :: inactive_read_handle
  next_permit_id :: nat
  querier_cache :: "(UUID \<times> shard_mutation_querier) list"
  db_stats :: database_stats
  closed_readers :: "flat_mutation_reader_v2 list"
  unlimited_query_max_result_size :: nat
  global_cache_hit_rate :: nat

section \<open>Failures\<close>

text \<open>
  A future is ready with a value or failed with an exception. Dereferencing an empty optional
  or a null pointer is neither: the source does not define what happens, and no handler of
  the source catches it.
\<close>

datatype exception = timeout_exception | logic_error | internal_error | injected_exception nat

datatype failure = thrown exception | undefined_behaviour

type_synonym 'a future = "failure + 'a"

datatype log_entry =
    unexpected_create_request shard_id reader_state
  | unexpected_dismantle_request reader_state
  | failed_to_save_reader exception
  | failed_to_save_reader_on_shard shard_id exception

text \<open>
  \<^verbatim>\<open>distributed<replica::database>\<close>, one database for each shard, and the messages written
  to \<^verbatim>\<open>mmq_log\<close>. Trace points are left out.
\<close>

record world =
  dbs :: "database list"
  mmq_log :: "log_entry list"

definition smp_count :: "world \<Rightarrow> nat" where
  "smp_count w = length (dbs w)"

definition update_db :: "shard_id \<Rightarrow> database \<Rightarrow> world \<Rightarrow> world" where
  "update_db shard db w = w\<lparr>dbs := (dbs w)[shard := db]\<rparr>"

text \<open>
  Modelled from the spec: \<^verbatim>\<open>unregister_inactive_read\<close> is not in this file. The handle is
  given up; the reader comes back unless it was evicted.
\<close>

definition unregister_inactive_read ::
    "inactive_read_handle \<Rightarrow> database \<Rightarrow> flat_mutation_reader_v2 option \<times> database" where
  "unregister_inactive_read h db =
     (map_of (inactive_reads db) h,
      db\<lparr>inactive_reads := filter (\<lambda>hr. fst hr \<noteq> h) (inactive_reads db)\<rparr>)"

text \<open>
  Modelled from the spec: \<^verbatim>\<open>register_inactive_read\<close> is not in this file. It parks the
  reader under a handle that no registered read has.
\<close>

definition register_inactive_read ::
    "flat_mutation_reader_v2 \<Rightarrow> database \<Rightarrow> inactive_read_handle \<times> database" where
  "register_inactive_read reader db =
     (next_handle db,
      db\<lparr>inactive_reads := (next_handle db, reader) # inactive_reads db,
         next_handle := Suc (next_handle db)\<rparr>)"

text \<open>Modelled from the spec: \<^verbatim>\<open>reader.close()\<close>; the database remembers the closed reader.\<close>

definition close_reader :: "flat_mutation_reader_v2 \<Rightarrow> database \<Rightarrow> database" where
  "close_reader reader db = db\<lparr>closed_readers := reader # closed_readers db\<rparr>"

text \<open>
  Modelled from the spec: \<^verbatim>\<open>querier_cache::insert\<close>; an entry stored under the same key is
  closed and replaced.
\<close>

definition querier_cache_insert :: "UUID \<Rightarrow> shard_mutation_querier \<Rightarrow> database \<Rightarrow> database" where
  "querier_cache_insert uuid querier db =
     (case map_of (querier_cache db) uuid of
        None \<Rightarrow> db\<lparr>querier_cache := (uuid, querier) # querier_cache db\<rparr>
      | Some old \<Rightarrow>
          (close_reader (q_reader old) db)
            \<lparr>querier_cache := (uuid, querier) # filter (\<lambda>e. fst e \<noteq> uuid) (querier_cache db)\<rparr>)"

text \<open>
  Modelled from the spec: \<^verbatim>\<open>lookup_shard_mutation_querier\<close>; the entry leaves the cache, and
  it is returned when the ranges and the slice of the request are compatible with it.
  Compatibility is decided outside this file.
\<close>

definition lookup_shard_mutation_querier ::
    "(shard_mutation_querier \<Rightarrow> bool) \<Rightarrow> UUID \<Rightarrow> database \<Rightarrow>
     shard_mutation_querier option \<times> database" where
  "lookup_shard_mutation_querier compatible uuid db =
     (case map_of (querier_cache db) uuid of
        None \<Rightarrow> (None, db)
      | Some q \<Rightarrow>
          (let db' = db\<lparr>querier_cache := filter (\<lambda>e. fst e \<noteq> uuid) (querier_cache db)\<rparr>
           in if compatible q then (Some q, db') else (None, close_reader (q_reader q) db')))"

section \<open>Exceptions of the calls that leave the file\<close>

text \<open>
  The calls that leave this file can throw. The environment says which of them do in a run:
  for a shard, the point of \<^verbatim>\<open>save_reader\<close>, of \<^verbatim>\<open>stop\<close> or of \<^verbatim>\<open>lookup_readers\<close> whose
  call throws when control reaches it, and the exception. It also holds the compatibility
  check of the querier cache and the id of the shard that coordinates the query.
\<close>

datatype save_point =
  save_invoke_on | save_unregister | save_unpop | save_make_querier | save_cache_insert

datatype stop_point = stop_invoke_on | stop_unregister

record environment =
  save_fault :: "shard_id \<Rightarrow> (save_point \<times> exception) option"
  stop_fault :: "shard_id \<Rightarrow> (stop_point \<times> exception) option"
  lookup_fault :: "shard_id \<Rightarrow> exception option"
  permit_fault :: "shard_id \<Rightarrow> exception option"
  accounter_fault :: "exception option"
  compatible_querier :: "shard_mutation_querier \<Rightarrow> bool"
  local_shard :: shard_id

definition fault_at :: "('p \<times> exception) option \<Rightarrow> 'p \<Rightarrow> exception option" where
  "fault_at plan point =
     (case plan of None \<Rightarrow> None | Some (p, e) \<Rightarrow> if p = point then Some e else None)"

section \<open>The read context and the reader lifecycle policy\<close>

record read_command =
  query_uuid :: UUID
  is_first_page :: bool
  row_limit :: "64 word"
  partition_row_limit :: "64 word"
  partition_limit :: "32 word"
  max_result_size :: "nat option"
  cmd_slice :: partition_slice
  allow_short_read :: bool

record read_context =
  ctx_permit :: reader_permit
  ctx_cmd :: read_command
  ctx_ranges :: "partition_range list"
  ctx_readers :: "reader_meta list"

text \<open>
  \<^verbatim>\<open>get_max_result_size\<close>, on the database of the shard that runs it: the size of the command
  when it has one, the database's maximum for unlimited queries otherwise.
\<close>

definition get_max_result_size :: "read_command \<Rightarrow> database \<Rightarrow> nat" where
  "get_max_result_size cmd db =
     (case max_result_size cmd of Some m \<Rightarrow> m | None \<Rightarrow> unlimited_query_max_result_size db)"

text \<open>
  The constructor: a tracking-only permit from the semaphore of the local shard, one
  default \<^verbatim>\<open>reader_meta\<close> for each shard.
\<close>

definition make_read_context ::
    "shard_id \<Rightarrow> read_command \<Rightarrow> partition_range list \<Rightarrow> world \<Rightarrow> read_context \<times> world" where
  "make_read_context local cmd ranges w =
     (let db = dbs w ! local
      in (\<lparr>ctx_permit = \<lparr>permit_id = next_permit_id db, permit_semaphore = semaphore_id db,
              permit_max_result_size = Some (get_max_result_size cmd db)\<rparr>,
           ctx_cmd = cmd, ctx_ranges = ranges,
           ctx_readers = replicate (smp_count w) default_reader_meta\<rparr>,
          update_db local (db\<lparr>next_permit_id := Suc (next_permit_id db)\<rparr>) w))"

definition set_reader :: "shard_id \<Rightarrow> reader_meta \<Rightarrow> read_context \<Rightarrow> read_context" where
  "set_reader shard rm ctx = ctx\<lparr>ctx_readers := (ctx_readers ctx)[shard := rm]\<rparr>"

text \<open>
  \<^verbatim>\<open>permit.set_max_result_size(size)\<close> writes to the state that every copy of the permit
  shares. The copies on a shard are the permit of the remote parts and the permit of the
  reader parked on the semaphore: both are written.
\<close>

definition set_max_result_size :: "nat \<Rightarrow> reader_permit \<Rightarrow> reader_permit" where
  "set_max_result_size max_size permit = permit\<lparr>permit_max_result_size := Some max_size\<rparr>"

definition set_max_result_size_of_parked :: "nat \<Rightarrow> nat \<Rightarrow> database \<Rightarrow> database" where
  "set_max_result_size_of_parked ident max_size db =
     db\<lparr>inactive_reads :=
       map (\<lambda>(h, reader).
             (h, if permit_id (reader_permit_of reader) = ident
                 then reader\<lparr>reader_permit_of :=
                        set_max_result_size max_size (reader_permit_of reader)\<rparr>
                 else reader))
         (inactive_reads db)\<rparr>"

text \<open>
  \<^verbatim>\<open>obtain_reader_permit\<close> on shard \<open>shard\<close>. After a successful lookup it is the permit of
  the saved remote parts, with the result size set again; otherwise the database admits a new
  permit, which may fail.
\<close>

definition obtain_reader_permit ::
    "environment \<Rightarrow> shard_id \<Rightarrow> read_context \<Rightarrow> world \<Rightarrow>
     reader_permit future \<times> read_context \<times> world" where
  "obtain_reader_permit env shard ctx w =
     (let rm = ctx_readers ctx ! shard; db = dbs w ! shard
      in if state rm = successful_lookup then
           (case rparts rm of
              None \<Rightarrow> (Inl undefined_behaviour, ctx, w)
            | Some rp \<Rightarrow>
                (let max_size = get_max_result_size (ctx_cmd ctx) db;
                     permit = set_max_result_size max_size (rp_permit rp)
                 in (Inr permit,
                     set_reader shard (rm\<lparr>rparts := Some (rp\<lparr>rp_permit := permit\<rparr>)\<rparr>) ctx,
                     update_db shard
                       (set_max_result_size_of_parked (permit_id (rp_permit rp)) max_size db) w)))
         else
           (case permit_fault env shard of
              Some e \<Rightarrow> (Inl (thrown e), ctx, w)
            | None \<Rightarrow>
                (Inr (set_max_result_size (get_max_result_size (ctx_cmd ctx) db)
                       \<lparr>permit_id = next_permit_id db, permit_semaphore = semaphore_id db,
                        permit_max_result_size = None\<rparr>),
                 ctx, update_db shard (db\<lparr>next_permit_id := Suc (next_permit_id db)\<rparr>) w)))"

text \<open>
  The second half of \<^verbatim>\<open>create_reader\<close>: new remote parts around the permit that was passed
  in (no handle, no buffer), state \<open>used\<close>, and a new reader from the table's mutation source.
\<close>

definition create_new_reader ::
    "shard_id \<Rightarrow> reader_permit \<Rightarrow> partition_range \<Rightarrow> partition_slice \<Rightarrow> read_context \<Rightarrow>
     world \<Rightarrow> flat_mutation_reader_v2 future \<times> read_context \<times> world" where
  "create_new_reader shard permit pr ps ctx w =
     (let rm = ctx_readers ctx ! shard;
          remote_parts = \<lparr>rp_permit = permit, rp_range = Some pr, rp_slice = Some ps,
            rp_read_operation = True, rp_handle = None, rp_buffer = None\<rparr>
      in (Inr \<lparr>reader_permit_of = permit, reader_buffer = [], reader_source = 0\<rparr>,
          set_reader shard (rm\<lparr>rparts := Some remote_parts, state := used\<rparr>) ctx, w))"

text \<open>
  \<^verbatim>\<open>create_reader\<close> on shard \<open>shard\<close>. The handle that was moved out of the remote parts
  stays in the optional; it names no registered read any more.
\<close>

definition create_reader ::
    "shard_id \<Rightarrow> reader_permit \<Rightarrow> partition_range \<Rightarrow> partition_slice \<Rightarrow> read_context \<Rightarrow>
     world \<Rightarrow> flat_mutation_reader_v2 future \<times> read_context \<times> world" where
  "create_reader shard permit pr ps ctx w =
     (let rm = ctx_readers ctx ! shard
      in if state rm \<noteq> used \<and> state rm \<noteq> successful_lookup \<and> state rm \<noteq> inexistent then
           (Inl (thrown logic_error), ctx,
            w\<lparr>mmq_log := mmq_log w @ [unexpected_create_request shard (state rm)]\<rparr>)
         else if state rm = successful_lookup then
           (case rparts rm of
              None \<Rightarrow> (Inl undefined_behaviour, ctx, w)
            | Some rp \<Rightarrow>
                (case rp_handle rp of
                   None \<Rightarrow> (Inl undefined_behaviour, ctx, w)
                 | Some h \<Rightarrow>
                     (case unregister_inactive_read h (dbs w ! shard) of
                        (Some reader, db') \<Rightarrow>
                          (if permit_id (reader_permit_of reader) \<noteq> permit_id permit
                           then Inl (thrown internal_error) else Inr reader,
                           set_reader shard (rm\<lparr>state := used\<rparr>) ctx, update_db shard db' w)
                      | (None, db') \<Rightarrow>
                          create_new_reader shard permit pr ps ctx (update_db shard db' w))))
         else create_new_reader shard permit pr ps ctx w)"

definition update_read_range ::
    "shard_id \<Rightarrow> partition_range \<Rightarrow> read_context \<Rightarrow> unit future \<times> read_context" where
  "update_read_range shard range' ctx =
     (let rm = ctx_readers ctx ! shard
      in case rparts rm of
           None \<Rightarrow> (Inl undefined_behaviour, ctx)
         | Some rp \<Rightarrow> (Inr (), set_reader shard (rm\<lparr>rparts := Some (rp\<lparr>rp_range := Some range'\<rparr>)\<rparr>) ctx))"

record stopped_reader =
  stopped_handle :: inactive_read_handle
  unconsumed_fragments :: tracked_buffer

definition destroy_reader ::
    "shard_id \<Rightarrow> stopped_reader \<Rightarrow> read_context \<Rightarrow> world \<Rightarrow> unit future \<times> read_context \<times> world" where
  "destroy_reader shard reader ctx w =
     (let rm = ctx_readers ctx ! shard
      in if state rm = used then
           (case rparts rm of
              None \<Rightarrow> (Inl undefined_behaviour, ctx, w)
            | Some rp \<Rightarrow>
                (Inr (),
                 set_reader shard
                   (rm\<lparr>state := saving,
                       rparts := Some (rp\<lparr>rp_handle := Some (stopped_handle reader),
                         rp_buffer := Some (unconsumed_fragments reader)\<rparr>)\<rparr>) ctx,
                 w))
         else
           (Inr (), ctx, w\<lparr>mmq_log := mmq_log w @ [unexpected_dismantle_request (state rm)]\<rparr>))"

section \<open>Saving the readers\<close>

definition bump_failed_reader_saves :: "database \<Rightarrow> database" where
  "bump_failed_reader_saves db =
     db\<lparr>db_stats := (db_stats db)\<lparr>multishard_query_failed_reader_saves :=
       multishard_query_failed_reader_saves (db_stats db) + 1\<rparr>\<rparr>"

text \<open>
  \<^verbatim>\<open>for (; rit != rend; ++rit) reader->unpop_mutation_fragment(...)\<close>, from the last fragment
  of the buffer to the first.
\<close>

definition unpop_all :: "tracked_buffer \<Rightarrow> flat_mutation_reader_v2 \<Rightarrow> flat_mutation_reader_v2" where
  "unpop_all buf reader = fold unpop_mutation_fragment (rev buf) reader"

text \<open>
  The \<^verbatim>\<open>try\<close> block of the function that \<^verbatim>\<open>save_reader\<close> runs on the shard: the failure
  that ended it, if any, and the database as the block left it. Pushing fragments back can
  only throw when there is a fragment to push.
\<close>

definition save_reader_try ::
    "(save_point \<times> exception) option \<Rightarrow> UUID \<Rightarrow> partition_range list \<Rightarrow> reader_meta \<Rightarrow>
     decorated_key \<Rightarrow> nat option \<Rightarrow> database \<Rightarrow> failure option \<times> database" where
  "save_reader_try fault uuid query_ranges rm last_pkey last_ckey db =
     (case rparts rm of
        None \<Rightarrow> (Some undefined_behaviour, db)
      | Some rp \<Rightarrow>
     (case rp_handle rp of
        None \<Rightarrow> (Some undefined_behaviour, db)
      | Some h \<Rightarrow>
     (case fault_at fault save_unregister of
        Some e \<Rightarrow> (Some (thrown e), db)
      | None \<Rightarrow>
     (case unregister_inactive_read h db of
        (None, db1) \<Rightarrow> (None, db1)
      | (Some reader, db1) \<Rightarrow>
     (let size_before = buffer_size reader;
          (fragments1, reader1) =
            (case rp_buffer rp of None \<Rightarrow> (0, reader)
             | Some b \<Rightarrow> (of_nat (length b), unpop_all b reader));
          (fragments2, reader2) =
            (case dismantled_buffer rm of None \<Rightarrow> (fragments1, reader1)
             | Some b \<Rightarrow> (fragments1 + of_nat (length b), unpop_all b reader1));
          size_after = buffer_size reader2;
          querier = \<lparr>q_query_ranges = query_ranges, q_reader_range = rp_range rp,
            q_reader_slice = rp_slice rp, q_reader = reader2, q_permit = rp_permit rp,
            q_last_pkey = last_pkey, q_last_ckey = last_ckey\<rparr>
      in case (if (case rp_buffer rp of None \<Rightarrow> [] | Some b \<Rightarrow> b) = [] \<and>
                  get_dismantled_buffer rm = []
               then None else fault_at fault save_unpop) of
           Some e \<Rightarrow> (Some (thrown e), db1)
         | None \<Rightarrow>
        (case fault_at fault save_make_querier of
           Some e \<Rightarrow> (Some (thrown e), db1)
         | None \<Rightarrow>
        (case fault_at fault save_cache_insert of
           Some e \<Rightarrow> (Some (thrown e), db1)
         | None \<Rightarrow>
            (let db2 = querier_cache_insert uuid querier db1
             in (None,
                 db2\<lparr>db_stats := (db_stats db2)
                   \<lparr>multishard_query_unpopped_fragments :=
                      multishard_query_unpopped_fragments (db_stats db2) + fragments2,
                    multishard_query_unpopped_bytes :=
                      multishard_query_unpopped_bytes (db_stats db2) +
                      (size_after - size_before)\<rparr>\<rparr>)))))))))"

text \<open>
  The function run on the shard: the \<^verbatim>\<open>try\<close> block and its \<^verbatim>\<open>catch (...)\<close>, which counts
  the failure on this shard, writes a message and returns a ready future.
\<close>

definition save_reader_on_shard ::
    "(save_point \<times> exception) option \<Rightarrow> UUID \<Rightarrow> partition_range list \<Rightarrow> reader_meta \<Rightarrow>
     decorated_key \<Rightarrow> nat option \<Rightarrow> database \<Rightarrow> unit future \<times> database \<times> log_entry list" where
  "save_reader_on_shard fault uuid query_ranges rm last_pkey last_ckey db =
     (case save_reader_try fault uuid query_ranges rm last_pkey last_ckey db of
        (None, db') \<Rightarrow> (Inr (), db', [])
      | (Some (thrown e), db') \<Rightarrow> (Inr (), bump_failed_reader_saves db', [failed_to_save_reader e])
      | (Some undefined_behaviour, db') \<Rightarrow> (Inl undefined_behaviour, db', []))"

text \<open>
  \<^verbatim>\<open>save_reader\<close>: the shard's \<^verbatim>\<open>reader_meta\<close> is exchanged for a default one, the function
  above runs on the shard, and \<^verbatim>\<open>handle_exception\<close> turns a failure of the cross-shard call
  into a ready future, counted on the local shard.
\<close>

definition save_reader ::
    "environment \<Rightarrow> shard_id \<Rightarrow> decorated_key \<Rightarrow> nat option \<Rightarrow> read_context \<Rightarrow> world \<Rightarrow>
     unit future \<times> read_context \<times> world" where
  "save_reader env shard last_pkey last_ckey ctx w =
     (let rm = ctx_readers ctx ! shard;
          ctx' = set_reader shard default_reader_meta ctx;
          (r, w') =
            (case fault_at (save_fault env shard) save_invoke_on of
               Some e \<Rightarrow> (Inl (thrown e), w)
             | None \<Rightarrow>
                 (case save_reader_on_shard (save_fault env shard) (query_uuid (ctx_cmd ctx))
                         (ctx_ranges ctx) rm last_pkey last_ckey (dbs w ! shard) of
                    (r, db', msgs) \<Rightarrow> (r, (update_db shard db' w)\<lparr>mmq_log := mmq_log w @ msgs\<rparr>)))
      in case r of
           Inl (thrown e) \<Rightarrow>
             (Inr (), ctx',
              (update_db (local_shard env)
                 (bump_failed_reader_saves (dbs w' ! local_shard env)) w')
                \<lparr>mmq_log := mmq_log w' @ [failed_to_save_reader_on_shard shard e]\<rparr>)
         | Inl undefined_behaviour \<Rightarrow> (Inl undefined_behaviour, ctx', w')
         | Inr u \<Rightarrow> (Inr (), ctx', w'))"

text \<open>
  \<^verbatim>\<open>parallel_for_each\<close> joins the futures of all the shards: it is ready when all are, and
  failed with an exception of one of them otherwise (here the first in shard order). The
  work of a shard touches that shard's database and slot of \<^verbatim>\<open>_readers\<close>, and counters,
  so the shards are run one after the other.
\<close>

definition join_futures :: "unit future \<Rightarrow> unit future \<Rightarrow> unit future" where
  "join_futures a b = (case a of Inl f \<Rightarrow> Inl f | Inr u \<Rightarrow> b)"

fun save_each ::
    "environment \<Rightarrow> decorated_key \<Rightarrow> nat option \<Rightarrow> shard_id list \<Rightarrow> read_context \<Rightarrow> world \<Rightarrow>
     unit future \<times> read_context \<times> world" where
  "save_each env last_pkey last_ckey [] ctx w = (Inr (), ctx, w)"
| "save_each env last_pkey last_ckey (shard # shards) ctx w =
     (case (if state (ctx_readers ctx ! shard) = successful_lookup \<or>
               state (ctx_readers ctx ! shard) = saving
            then save_reader env shard last_pkey last_ckey ctx w
            else (Inr (), ctx, w)) of
        (Inl undefined_behaviour, ctx', w') \<Rightarrow> (Inl undefined_behaviour, ctx', w')
      | (r, ctx', w') \<Rightarrow>
          (case save_each env last_pkey last_ckey shards ctx' w' of
             (r', ctx'', w'') \<Rightarrow> (join_futures r r', ctx'', w'')))"

definition save_readers ::
    "(int \<Rightarrow> shard_id) \<Rightarrow> environment \<Rightarrow> tracked_buffer \<Rightarrow> detached_compaction_state \<Rightarrow>
     nat option \<Rightarrow> read_context \<Rightarrow> world \<Rightarrow> unit future \<times> read_context \<times> world" where
  "save_readers sharder env unconsumed_buffer compaction_state last_ckey ctx w =
     (if query_uuid (ctx_cmd ctx) = null_UUID then (Inr (), ctx, w)
      else
        (let last_pkey = key (cs_partition_start compaction_state);
             (cb_stats, readers1) =
               dismantle_combined_buffer sharder (ctx_readers ctx) unconsumed_buffer last_pkey;
             (cs_stats, readers2) = dismantle_compaction_state sharder readers1 compaction_state
         in save_each env last_pkey last_ckey [0..<smp_count w]
              (ctx\<lparr>ctx_readers := readers2\<rparr>) w))"

section \<open>Looking readers up, stopping, and the query of one page\<close>

text \<open>
  The function that \<^verbatim>\<open>lookup_readers\<close> runs on every shard: the new \<^verbatim>\<open>reader_meta\<close> of the
  shard. A querier whose permit belongs to another semaphore is an internal error.
\<close>

definition lookup_on_shard ::
    "environment \<Rightarrow> UUID \<Rightarrow> shard_id \<Rightarrow> database \<Rightarrow> reader_meta future \<times> database" where
  "lookup_on_shard env uuid shard db =
     (case lookup_fault env shard of
        Some e \<Rightarrow> (Inl (thrown e), db)
      | None \<Rightarrow>
     (case lookup_shard_mutation_querier (compatible_querier env) uuid db of
        (None, db1) \<Rightarrow> (Inr \<lparr>state = inexistent, rparts = None, dismantled_buffer = None\<rparr>, db1)
      | (Some q, db1) \<Rightarrow>
          if permit_semaphore (q_permit q) \<noteq> semaphore_id db1 then (Inl (thrown internal_error), db1)
          else
            (case register_inactive_read (q_reader q) db1 of
               (h, db2) \<Rightarrow>
                 (Inr \<lparr>state = successful_lookup,
                       rparts = Some \<lparr>rp_permit = q_permit q, rp_range = q_reader_range q,
                         rp_slice = q_reader_slice q, rp_read_operation = True,
                         rp_handle = Some h, rp_buffer = None\<rparr>,
                       dismantled_buffer = None\<rparr>, db2))))"

fun lookup_each ::
    "environment \<Rightarrow> shard_id list \<Rightarrow> read_context \<Rightarrow> world \<Rightarrow> unit future \<times> read_context \<times> world" where
  "lookup_each env [] ctx w = (Inr (), ctx, w)"
| "lookup_each env (shard # shards) ctx w =
     (case lookup_on_shard env (query_uuid (ctx_cmd ctx)) shard (dbs w ! shard) of
        (r, db') \<Rightarrow>
          (case lookup_each env shards
                  (case r of Inl f \<Rightarrow> ctx | Inr rm \<Rightarrow> set_reader shard rm ctx)
                  (update_db shard db' w) of
             (r', ctx', w') \<Rightarrow>
               (join_futures (case r of Inl f \<Rightarrow> Inl f | Inr rm \<Rightarrow> Inr ()) r', ctx', w')))"

definition lookup_readers ::
    "environment \<Rightarrow> read_context \<Rightarrow> world \<Rightarrow> unit future \<times> read_context \<times> world" where
  "lookup_readers env ctx w =
     (if query_uuid (ctx_cmd ctx) = null_UUID \<or> is_first_page (ctx_cmd ctx) then (Inr (), ctx, w)
      else lookup_each env [0..<smp_count w] ctx w)"

text \<open>
  The function that \<^verbatim>\<open>stop\<close> runs on a shard, on the remote parts it released from the
  context: an inactive read still registered under the handle is unregistered and closed.
\<close>

definition stop_on_shard ::
    "(stop_point \<times> exception) option \<Rightarrow> remote_parts \<Rightarrow> database \<Rightarrow> unit future \<times> database" where
  "stop_on_shard fault rp db =
     (case rp_handle rp of
        None \<Rightarrow> (Inr (), db)
      | Some h \<Rightarrow>
          (case fault_at fault stop_unregister of
             Some e \<Rightarrow> (Inl (thrown e), db)
           | None \<Rightarrow>
               (case unregister_inactive_read h db of
                  (None, db1) \<Rightarrow> (Inr (), db1)
                | (Some reader, db1) \<Rightarrow> (Inr (), close_reader reader db1))))"

text \<open>
  \<^verbatim>\<open>stop\<close> has no handler: the future of a shard is what the cross-shard call returns. The
  remote parts leave the context when the function starts on the shard.
\<close>

definition stop_shard ::
    "environment \<Rightarrow> shard_id \<Rightarrow> read_context \<Rightarrow> world \<Rightarrow> unit future \<times> read_context \<times> world" where
  "stop_shard env shard ctx w =
     (case rparts (ctx_readers ctx ! shard) of
        None \<Rightarrow> (Inr (), ctx, w)
      | Some rp \<Rightarrow>
          (case fault_at (stop_fault env shard) stop_invoke_on of
             Some e \<Rightarrow> (Inl (thrown e), ctx, w)
           | None \<Rightarrow>
               (case stop_on_shard (stop_fault env shard) rp (dbs w ! shard) of
                  (r, db') \<Rightarrow>
                    (r, set_reader shard ((ctx_readers ctx ! shard)\<lparr>rparts := None\<rparr>) ctx,
                     update_db shard db' w))))"

fun stop_each ::
    "environment \<Rightarrow> shard_id list \<Rightarrow> read_context \<Rightarrow> world \<Rightarrow> unit future \<times> read_context \<times> world" where
  "stop_each env [] ctx w = (Inr (), ctx, w)"
| "stop_each env (shard # shards) ctx w =
     (case stop_shard env shard ctx w of
        (r, ctx', w') \<Rightarrow>
          (case stop_each env shards ctx' w' of
             (r', ctx'', w'') \<Rightarrow> (join_futures r r', ctx'', w'')))"

definition stop :: "environment \<Rightarrow> read_context \<Rightarrow> world \<Rightarrow> unit future \<times> read_context \<times> world" where
  "stop env ctx w = stop_each env [0..<smp_count w] ctx w"

text \<open>
  The result of a page and what \<^verbatim>\<open>read_page\<close> returns. The multishard combining reader and
  \<^verbatim>\<open>consume_page\<close> are not in this file: \<^verbatim>\<open>read_page\<close> is a parameter of the query, a function
  of the context and the databases, which it may change through the lifecycle policy.
\<close>

record query_result =
  is_short_read :: bool
  result_rows :: "nat list"

definition default_result :: query_result where
  "default_result = \<lparr>is_short_read = False, result_rows = []\<rparr>"

record compact_for_result_state =
  are_limits_reached :: bool
  detach_state :: detached_compaction_state

record page_consume_result =
  pcr_last_ckey :: "nat option"
  pcr_result :: query_result
  pcr_unconsumed_fragments :: tracked_buffer
  pcr_compaction_state :: compact_for_result_state

type_synonym read_page_fun =
  "read_context \<Rightarrow> world \<Rightarrow> page_consume_result future \<times> read_context \<times> world"

text \<open>
  The chain that \<^verbatim>\<open>do_query\<close> wraps in \<^verbatim>\<open>coroutine::as_future\<close>: look the readers up, read
  the page and, when a limit was reached or the read is short, save the readers.
\<close>

definition query_page ::
    "(int \<Rightarrow> shard_id) \<Rightarrow> environment \<Rightarrow> read_page_fun \<Rightarrow> read_context \<Rightarrow> world \<Rightarrow>
     query_result future \<times> read_context \<times> world" where
  "query_page sharder env read_page ctx w =
     (case lookup_readers env ctx w of
        (Inl f, ctx1, w1) \<Rightarrow> (Inl f, ctx1, w1)
      | (Inr u, ctx1, w1) \<Rightarrow>
     (case read_page ctx1 w1 of
        (Inl f, ctx2, w2) \<Rightarrow> (Inl f, ctx2, w2)
      | (Inr r, ctx2, w2) \<Rightarrow>
          if are_limits_reached (pcr_compaction_state r) \<or> is_short_read (pcr_result r) then
            (case save_readers sharder env (pcr_unconsumed_fragments r)
                    (detach_state (pcr_compaction_state r)) (pcr_last_ckey r) ctx2 w2 of
               (Inl f, ctx3, w3) \<Rightarrow> (Inl f, ctx3, w3)
             | (Inr u, ctx3, w3) \<Rightarrow> (Inr (pcr_result r), ctx3, w3))
          else (Inr (pcr_result r), ctx2, w2)))"

text \<open>
  \<^verbatim>\<open>do_query\<close>: the context is built, the chain runs to a future, \<^verbatim>\<open>stop\<close> is awaited, and
  the future of the chain is returned. Awaiting a failed \<^verbatim>\<open>stop\<close> throws its exception.
\<close>

definition do_query ::
    "(int \<Rightarrow> shard_id) \<Rightarrow> environment \<Rightarrow> read_page_fun \<Rightarrow> read_command \<Rightarrow>
     partition_range list \<Rightarrow> world \<Rightarrow> query_result future \<times> world" where
  "do_query sharder env read_page cmd ranges w =
     (case make_read_context (local_shard env) cmd ranges w of
        (ctx, w0) \<Rightarrow>
     (case query_page sharder env read_page ctx w0 of
        (Inl undefined_behaviour, ctx1, w1) \<Rightarrow> (Inl undefined_behaviour, w1)
      | (f, ctx1, w1) \<Rightarrow>
          (case stop env ctx1 w1 of
             (Inl e, ctx2, w2) \<Rightarrow> (Inl e, w2)
           | (Inr u, ctx2, w2) \<Rightarrow> (f, w2))))"

section \<open>The query on all shards\<close>

definition bump_reads :: "query_result \<Rightarrow> database \<Rightarrow> database" where
  "bump_reads result db =
     db\<lparr>db_stats := (db_stats db)
       \<lparr>total_reads := total_reads (db_stats db) + 1,
        short_mutation_queries :=
          short_mutation_queries (db_stats db) + (if is_short_read result then 1 else 0)\<rparr>\<rparr>"

definition bump_reads_failed :: "database \<Rightarrow> database" where
  "bump_reads_failed db =
     db\<lparr>db_stats := (db_stats db)\<lparr>total_reads_failed := total_reads_failed (db_stats db) + 1\<rparr>\<rparr>"

text \<open>
  \<^verbatim>\<open>do_query_on_all_shards\<close>. The result builder that the factory makes from the memory
  accounter lives in \<^verbatim>\<open>read_page\<close>, which therefore takes the size given to the accounter.
  The command's \<^verbatim>\<open>max_result_size\<close> is dereferenced without a test.
\<close>

definition do_query_on_all_shards ::
    "(int \<Rightarrow> shard_id) \<Rightarrow> environment \<Rightarrow> (nat \<Rightarrow> read_page_fun) \<Rightarrow> read_command \<Rightarrow>
     partition_range list \<Rightarrow> world \<Rightarrow> (query_result \<times> nat) future \<times> world" where
  "do_query_on_all_shards sharder env read_page cmd ranges w =
     (if row_limit cmd = 0 \<or> partition_row_limit cmd = 0 \<or> partition_limit cmd = 0 then
        (Inr (default_result, global_cache_hit_rate (dbs w ! local_shard env)), w)
      else
        (case max_result_size cmd of
           None \<Rightarrow> (Inl undefined_behaviour, w)
         | Some m \<Rightarrow>
             (case (case accounter_fault env of
                      Some e \<Rightarrow> (Inl (thrown e), w)
                    | None \<Rightarrow> do_query sharder env (read_page m) cmd ranges w) of
                (Inr result, w1) \<Rightarrow>
                  (Inr (result, global_cache_hit_rate (dbs w1 ! local_shard env)),
                   update_db (local_shard env) (bump_reads result (dbs w1 ! local_shard env)) w1)
              | (Inl (thrown e), w1) \<Rightarrow>
                  (Inl (thrown e),
                   update_db (local_shard env) (bump_reads_failed (dbs w1 ! local_shard env)) w1)
              | (Inl undefined_behaviour, w1) \<Rightarrow> (Inl undefined_behaviour, w1))))"

text \<open>
  The two entry points differ in the result builder only, which is part of \<^verbatim>\<open>read_page\<close>
  here.
\<close>

definition query_mutations_on_all_shards ::
    "(int \<Rightarrow> shard_id) \<Rightarrow> environment \<Rightarrow> (nat \<Rightarrow> read_page_fun) \<Rightarrow> read_command \<Rightarrow>
     partition_range list \<Rightarrow> world \<Rightarrow> (query_result \<times> nat) future \<times> world" where
  "query_mutations_on_all_shards sharder env read_page cmd ranges w =
     do_query_on_all_shards sharder env read_page cmd ranges w"

definition query_data_on_all_shards ::
    "(int \<Rightarrow> shard_id) \<Rightarrow> environment \<Rightarrow> (nat \<Rightarrow> read_page_fun) \<Rightarrow> read_command \<Rightarrow>
     partition_range list \<Rightarrow> world \<Rightarrow> (query_result \<times> nat) future \<times> world" where
  "query_data_on_all_shards sharder env read_page cmd ranges w =
     do_query_on_all_shards sharder env read_page cmd ranges w"

section \<open>The multi-range reader\<close>

text \<open>
  Modelled from the spec: the reader that \<^verbatim>\<open>multi_range_reader\<close> wraps is not in this file.
  It is a source of fragments for one partition range at a time. Here it follows a script:
  each \<^verbatim>\<open>fill_buffer\<close> takes the next entry, which appends fragments to the buffer and sets
  the end-of-stream flag, or throws; when the script is used up the stream has ended.
  \<^verbatim>\<open>fast_forward_to\<close> empties the buffer and starts the script of the new range, given by
  \<open>scripts\<close>. A fragment in a buffer is paired with the index of the range it was read from.
\<close>

datatype produce = produce_fragments "mutation_fragment_v2 list" bool | produce_failure exception

type_synonym ranged_fragment = "nat \<times> mutation_fragment_v2"

record underlying_reader =
  u_buffer :: "ranged_fragment list"
  u_end_of_stream :: bool
  u_position :: nat
  u_pending :: "produce list"

definition underlying_fill_buffer :: "underlying_reader \<Rightarrow> exception + underlying_reader" where
  "underlying_fill_buffer u =
     (case u_pending u of
        [] \<Rightarrow> Inr (u\<lparr>u_end_of_stream := True\<rparr>)
      | produce_fragments mfs eos # rest \<Rightarrow>
          Inr (u\<lparr>u_buffer := u_buffer u @ map (Pair (u_position u)) mfs,
                 u_end_of_stream := eos, u_pending := rest\<rparr>)
      | produce_failure e # rest \<Rightarrow> Inl e)"

definition underlying_fast_forward_to ::
    "(nat \<Rightarrow> exception + produce list) \<Rightarrow> nat \<Rightarrow> underlying_reader \<Rightarrow>
     exception + underlying_reader" where
  "underlying_fast_forward_to scripts i u =
     (case scripts i of
        Inl e \<Rightarrow> Inl e
      | Inr script \<Rightarrow>
          Inr (u\<lparr>u_buffer := [], u_end_of_stream := False, u_position := i, u_pending := script\<rparr>))"

text \<open>
  \<^verbatim>\<open>multi_range_reader\<close>: the buffer and the end-of-stream flag of \<^verbatim>\<open>impl\<close>, the wrapped
  reader, and the iterators \<^verbatim>\<open>_it\<close> and \<^verbatim>\<open>_end\<close> as indices into the range vector.
\<close>

record multi_range_reader =
  mr_buffer :: "ranged_fragment list"
  mr_end_of_stream :: bool
  mr_reader :: underlying_reader
  mr_it :: nat
  mr_end :: nat

definition make_multi_range_reader :: "underlying_reader \<Rightarrow> nat \<Rightarrow> multi_range_reader" where
  "make_multi_range_reader rd n =
     \<lparr>mr_buffer = [], mr_end_of_stream = False, mr_reader = rd, mr_it = 0, mr_end = n\<rparr>"

text \<open>\<^verbatim>\<open>_reader.move_buffer_content_to(*this)\<close>.\<close>

definition move_buffer_content_to :: "multi_range_reader \<Rightarrow> multi_range_reader" where
  "move_buffer_content_to s =
     s\<lparr>mr_buffer := mr_buffer s @ u_buffer (mr_reader s),
       mr_reader := (mr_reader s)\<lparr>u_buffer := []\<rparr>\<rparr>"

text \<open>
  \<^verbatim>\<open>if (_reader.is_buffer_empty()) co_await _reader.fill_buffer(); _reader.move_buffer_content_to(*this);\<close>
\<close>

definition fill_and_move :: "multi_range_reader \<Rightarrow> failure + multi_range_reader" where
  "fill_and_move s =
     (if u_buffer (mr_reader s) = [] then
        (case underlying_fill_buffer (mr_reader s) of
           Inl e \<Rightarrow> Inl (thrown e)
         | Inr u \<Rightarrow> Inr (move_buffer_content_to (s\<lparr>mr_reader := u\<rparr>)))
      else Inr (move_buffer_content_to s))"

text \<open>
  One pass through the body of the loop of \<^verbatim>\<open>fill_buffer\<close>; the flag says that the loop was
  left with \<^verbatim>\<open>break\<close>. Incrementing \<^verbatim>\<open>_it\<close> when it is already \<^verbatim>\<open>_end\<close> is undefined.
\<close>

definition fill_iteration ::
    "(nat \<Rightarrow> exception + produce list) \<Rightarrow> multi_range_reader \<Rightarrow>
     failure + (bool \<times> multi_range_reader)" where
  "fill_iteration scripts s =
     (if u_buffer (mr_reader s) = [] \<and> u_end_of_stream (mr_reader s) then
        (if mr_end s \<le> mr_it s then Inl undefined_behaviour
         else if Suc (mr_it s) = mr_end s then
           Inr (True, s\<lparr>mr_it := Suc (mr_it s), mr_end_of_stream := True\<rparr>)
         else
           (case underlying_fast_forward_to scripts (Suc (mr_it s)) (mr_reader s) of
              Inl e \<Rightarrow> Inl (thrown e)
            | Inr u \<Rightarrow>
                (case fill_and_move (s\<lparr>mr_it := Suc (mr_it s), mr_reader := u\<rparr>) of
                   Inl f \<Rightarrow> Inl f
                 | Inr s' \<Rightarrow> Inr (False, s'))))
      else
        (case fill_and_move s of Inl f \<Rightarrow> Inl f | Inr s' \<Rightarrow> Inr (False, s')))"

text \<open>What the loop has left to do: ranges, then entries of the script, then the end flag.\<close>

definition remaining_work :: "multi_range_reader \<Rightarrow> nat \<times> nat \<times> nat" where
  "remaining_work s =
     (if mr_buffer s = [] then 1 else 0,
      mr_end s - mr_it s,
      length (u_pending (mr_reader s)) + (if u_end_of_stream (mr_reader s) then 0 else 1))"


lemma underlying_fill_buffer_work:
  assumes "underlying_fill_buffer u = Inr u'" and "\<not> u_end_of_stream u"
  shows "length (u_pending u') + (if u_end_of_stream u' then 0 else 1) <
         length (u_pending u) + (if u_end_of_stream u then 0 else 1)"
proof (cases "u_pending u")
  case Nil
  with assms show ?thesis by (auto simp: underlying_fill_buffer_def)
next
  case (Cons p rest)
  with assms show ?thesis by (cases p) (auto simp: underlying_fill_buffer_def)
qed

lemma fill_and_move_work:
  assumes "fill_and_move s0 = Inr t"
  shows "mr_end t = mr_end s0" and "mr_it t = mr_it s0"
    and "mr_buffer s0 = [] \<Longrightarrow> mr_buffer t = [] \<Longrightarrow> \<not> u_end_of_stream (mr_reader s0) \<Longrightarrow>
      length (u_pending (mr_reader t)) + (if u_end_of_stream (mr_reader t) then 0 else 1) <
      length (u_pending (mr_reader s0)) + (if u_end_of_stream (mr_reader s0) then 0 else 1)"
    and "u_buffer (mr_reader s0) \<noteq> [] \<Longrightarrow> mr_buffer t \<noteq> []"
proof -
  show "mr_end t = mr_end s0" and "mr_it t = mr_it s0"
    using assms
    by (auto simp: fill_and_move_def move_buffer_content_to_def split: if_splits sum.splits)
  show "u_buffer (mr_reader s0) \<noteq> [] \<Longrightarrow> mr_buffer t \<noteq> []"
    using assms
    by (auto simp: fill_and_move_def move_buffer_content_to_def split: if_splits sum.splits)
  show "length (u_pending (mr_reader t)) + (if u_end_of_stream (mr_reader t) then 0 else 1) <
      length (u_pending (mr_reader s0)) + (if u_end_of_stream (mr_reader s0) then 0 else 1)"
    if "mr_buffer s0 = []" and "mr_buffer t = []" and ne: "\<not> u_end_of_stream (mr_reader s0)"
  proof (cases "u_buffer (mr_reader s0) = []")
    case True
    with assms obtain u where u: "underlying_fill_buffer (mr_reader s0) = Inr u"
      and t: "t = move_buffer_content_to (s0\<lparr>mr_reader := u\<rparr>)"
      by (auto simp: fill_and_move_def split: sum.splits)
    from t have "u_pending (mr_reader t) = u_pending u"
      and "u_end_of_stream (mr_reader t) = u_end_of_stream u"
      by (simp_all add: move_buffer_content_to_def)
    with underlying_fill_buffer_work [OF u ne] show ?thesis by simp
  next
    case False
    with assms that show ?thesis
      by (auto simp: fill_and_move_def move_buffer_content_to_def)
  qed
qed

function while_buffer_empty ::
    "(nat \<Rightarrow> exception + produce list) \<Rightarrow> multi_range_reader \<Rightarrow> failure + multi_range_reader" where
  "while_buffer_empty scripts s =
     (if mr_buffer s \<noteq> [] then Inr s
      else
        (case fill_iteration scripts s of
           Inl f \<Rightarrow> Inl f
         | Inr (True, s') \<Rightarrow> Inr s'
         | Inr (False, s') \<Rightarrow> while_buffer_empty scripts s'))"
  by pat_completeness auto


lemma fill_iteration_work:
  assumes "mr_buffer s = []" and "fill_iteration scripts s = Inr (False, s')"
  shows "(remaining_work s', remaining_work s) \<in> less_than <*lex*> less_than <*lex*> less_than"
proof (cases "u_buffer (mr_reader s) = [] \<and> u_end_of_stream (mr_reader s)")
  case True
  with assms(2) have lt: "mr_it s < mr_end s"
    by (auto simp: fill_iteration_def split: if_splits)
  from True assms(2) obtain u where
    fm: "fill_and_move (s\<lparr>mr_it := Suc (mr_it s), mr_reader := u\<rparr>) = Inr s'"
    by (auto simp: fill_iteration_def split: if_splits sum.splits)
  from fill_and_move_work(1,2) [OF fm] have "mr_end s' = mr_end s" and "mr_it s' = Suc (mr_it s)"
    by simp_all
  with lt assms(1) show ?thesis
    by (auto simp: remaining_work_def)
next
  case False
  with assms(2) have fm: "fill_and_move s = Inr s'"
    by (auto simp: fill_iteration_def split: if_splits sum.splits)
  note w = fill_and_move_work [OF fm]
  show ?thesis
  proof (cases "mr_buffer s' = []")
    case nonempty: False
    with assms(1) w(1,2) show ?thesis by (simp add: remaining_work_def)
  next
    case empty: True
    with w(4) have ub: "u_buffer (mr_reader s) = []" by auto
    with False have "\<not> u_end_of_stream (mr_reader s)" by simp
    from w(3) [OF assms(1) empty this] assms(1) empty w(1,2) show ?thesis
      by (simp add: remaining_work_def)
  qed
qed

termination while_buffer_empty
  apply (relation "inv_image (less_than <*lex*> less_than <*lex*> less_than)
      (\<lambda>p. remaining_work (snd p))")
  subgoal by (intro wf_inv_image wf_lex_prod wf_less_than)
  subgoal for scripts s x2 x1 s'
    using fill_iteration_work [of s scripts s'] by auto
  done

text \<open>\<^verbatim>\<open>fill_buffer\<close>: nothing at the end of the stream, the loop otherwise.\<close>

definition fill_buffer ::
    "(nat \<Rightarrow> exception + produce list) \<Rightarrow> multi_range_reader \<Rightarrow> failure + multi_range_reader" where
  "fill_buffer scripts s = (if mr_end_of_stream s then Inr s else while_buffer_empty scripts s)"

text \<open>The consumer takes fragments from the front of the buffer.\<close>

definition pop_fragments :: "nat \<Rightarrow> multi_range_reader \<Rightarrow> multi_range_reader" where
  "pop_fragments n s = s\<lparr>mr_buffer := drop n (mr_buffer s)\<rparr>"

section \<open>Reference definitions for the dismantled buffers\<close>

text \<open>
  The description of the specification, read head to tail: the fragments in front of the first
  partition start (they belong to the partition whose start was already consumed), and, for a
  shard, every partition start owned by that shard whose reader is \<open>saving\<close>, each followed by
  the fragments up to the next partition start, in stream order.
\<close>

definition leading_fragments :: "tracked_buffer \<Rightarrow> tracked_buffer" where
  "leading_fragments buf = takeWhile (\<lambda>mf. \<not> is_partition_start mf) buf"

fun kept_partitions ::
    "(int \<Rightarrow> shard_id) \<Rightarrow> reader_meta list \<Rightarrow> shard_id \<Rightarrow> tracked_buffer \<Rightarrow> tracked_buffer" where
  "kept_partitions sharder readers shard [] = []"
| "kept_partitions sharder readers shard (mf # mfs) =
     (if is_partition_start mf \<and> shard_of_fragment sharder mf = shard \<and>
         state (readers ! shard) = saving
      then mf # leading_fragments mfs @ kept_partitions sharder readers shard mfs
      else kept_partitions sharder readers shard mfs)"

fun saved_fragments :: "(int \<Rightarrow> shard_id) \<Rightarrow> reader_meta list \<Rightarrow> tracked_buffer \<Rightarrow> tracked_buffer" where
  "saved_fragments sharder readers [] = []"
| "saved_fragments sharder readers (mf # mfs) =
     (if is_partition_start mf \<and> state (readers ! shard_of_fragment sharder mf) = saving
      then mf # leading_fragments mfs @ saved_fragments sharder readers mfs
      else saved_fragments sharder readers mfs)"

fun dropped_fragments :: "(int \<Rightarrow> shard_id) \<Rightarrow> reader_meta list \<Rightarrow> tracked_buffer \<Rightarrow> tracked_buffer" where
  "dropped_fragments sharder readers [] = []"
| "dropped_fragments sharder readers (mf # mfs) =
     (if is_partition_start mf \<and> state (readers ! shard_of_fragment sharder mf) \<noteq> saving
      then mf # leading_fragments mfs @ dropped_fragments sharder readers mfs
      else dropped_fragments sharder readers mfs)"

definition stats_of :: "tracked_buffer \<Rightarrow> tracked_buffer \<Rightarrow> dismantle_buffer_stats" where
  "stats_of kept dropped =
     \<lparr>partitions = of_nat (length (filter is_partition_start kept)),
      fragments = of_nat (length kept),
      bytes = sum_list (map memory_usage kept),
      discarded_partitions = of_nat (length (filter is_partition_start dropped)),
      discarded_fragments = of_nat (length dropped),
      discarded_bytes = sum_list (map memory_usage dropped)\<rparr>"

definition with_front :: "tracked_buffer \<Rightarrow> reader_meta \<Rightarrow> reader_meta" where
  "with_front frs rm = rm\<lparr>dismantled_buffer := Some (frs @ get_dismantled_buffer rm)\<rparr>"

definition routed ::
    "(int \<Rightarrow> shard_id) \<Rightarrow> reader_meta list \<Rightarrow> tracked_buffer \<Rightarrow> reader_meta list" where
  "routed sharder readers xs =
     map (\<lambda>s. if kept_partitions sharder readers s xs = [] then readers ! s
              else with_front (kept_partitions sharder readers s xs) (readers ! s))
       [0..<length readers]"

definition routed_to ::
    "(int \<Rightarrow> shard_id) \<Rightarrow> reader_meta list \<Rightarrow> tracked_buffer \<Rightarrow> decorated_key \<Rightarrow> shard_id \<Rightarrow>
     tracked_buffer" where
  "routed_to sharder readers buf pkey shard =
     (if shard = sharder (token pkey) then leading_fragments buf else []) @
     kept_partitions sharder readers shard buf"

text \<open>
  The fragments that the compaction state stands for, in the order in which a reader emits
  them: partition start, static row, range tombstone change.
\<close>

definition compaction_state_fragments :: "detached_compaction_state \<Rightarrow> tracked_buffer" where
  "compaction_state_fragments cs =
     MF_partition_start (cs_partition_start cs) #
     (case cs_static_row cs of None \<Rightarrow> [] | Some sr \<Rightarrow> [MF_static_row sr]) @
     (case cs_current_tombstone cs of None \<Rightarrow> [] | Some rtc \<Rightarrow> [MF_range_tombstone_change rtc])"

text \<open>What the three pieces count for: one partition, and the footprints of the pieces.\<close>

definition compaction_state_fragment_count :: "detached_compaction_state \<Rightarrow> size_t" where
  "compaction_state_fragment_count cs =
     1 + (case cs_static_row cs of None \<Rightarrow> 0 | Some sr \<Rightarrow> 1) +
     (case cs_current_tombstone cs of None \<Rightarrow> 0 | Some rtc \<Rightarrow> 1)"

definition compaction_state_bytes :: "detached_compaction_state \<Rightarrow> size_t" where
  "compaction_state_bytes cs =
     ps_memory_usage (cs_partition_start cs) +
     (case cs_static_row cs of None \<Rightarrow> 0 | Some sr \<Rightarrow> sr_memory_usage sr) +
     (case cs_current_tombstone cs of None \<Rightarrow> 0 | Some rtc \<Rightarrow> rtc_memory_usage rtc)"

section \<open>Reference definitions for saving and stopping\<close>

text \<open>
  A reader can be saved when its remote parts exist and hold a handle. \<^verbatim>\<open>lookup_readers\<close>
  and \<^verbatim>\<open>destroy_reader\<close> are the only places that put a reader into \<open>successful_lookup\<close> or
  \<open>saving\<close>, and both store the handle; \<^verbatim>\<open>save_reader\<close> dereferences both without a test.
\<close>

definition has_handle :: "reader_meta \<Rightarrow> bool" where
  "has_handle rm = (case rparts rm of None \<Rightarrow> False | Some rp \<Rightarrow> rp_handle rp \<noteq> None)"

definition to_be_saved :: "reader_meta \<Rightarrow> bool" where
  "to_be_saved rm = (state rm = successful_lookup \<or> state rm = saving)"

definition ready_to_save :: "read_context \<Rightarrow> world \<Rightarrow> bool" where
  "ready_to_save ctx w =
     (length (ctx_readers ctx) = smp_count w \<and>
      list_all (\<lambda>rm. to_be_saved rm \<longrightarrow> has_handle rm) (ctx_readers ctx))"

text \<open>The counter \<^verbatim>\<open>multishard_query_failed_reader_saves\<close>, summed over the shards.\<close>

definition failed_reader_saves :: "world \<Rightarrow> 64 word" where
  "failed_reader_saves w =
     sum_list (map (\<lambda>db. multishard_query_failed_reader_saves (db_stats db)) (dbs w))"

text \<open>
  The save step of a shard throws when the cross-shard call does, or when a call inside the
  \<^verbatim>\<open>try\<close> block does.
\<close>

definition save_step_throws ::
    "environment \<Rightarrow> decorated_key \<Rightarrow> nat option \<Rightarrow> read_context \<Rightarrow> world \<Rightarrow> shard_id \<Rightarrow> bool" where
  "save_step_throws env last_pkey last_ckey ctx w shard =
     (to_be_saved (ctx_readers ctx ! shard) \<and>
      (case fault_at (save_fault env shard) save_invoke_on of
         Some e \<Rightarrow> True
       | None \<Rightarrow>
           (case fst (save_reader_try (save_fault env shard) (query_uuid (ctx_cmd ctx))
                   (ctx_ranges ctx) (ctx_readers ctx ! shard) last_pkey last_ckey
                   (dbs w ! shard)) of
              Some (thrown e) \<Rightarrow> True
            | Some undefined_behaviour \<Rightarrow> False
            | None \<Rightarrow> False)))"

text \<open>The context that \<^verbatim>\<open>save_readers\<close> hands to the save steps: both dismantlings done.\<close>

definition dismantled_context ::
    "(int \<Rightarrow> shard_id) \<Rightarrow> tracked_buffer \<Rightarrow> detached_compaction_state \<Rightarrow> read_context \<Rightarrow>
     read_context" where
  "dismantled_context sharder unconsumed_buffer compaction_state ctx =
     ctx\<lparr>ctx_readers :=
       snd (dismantle_compaction_state sharder
         (snd (dismantle_combined_buffer sharder (ctx_readers ctx) unconsumed_buffer
            (key (cs_partition_start compaction_state))))
         compaction_state)\<rparr>"

text \<open>
  What \<^verbatim>\<open>stop\<close> does to one shard, as a function of that shard's \<^verbatim>\<open>reader_meta\<close> and
  database alone.
\<close>

definition stop_effect ::
    "environment \<Rightarrow> shard_id \<Rightarrow> reader_meta \<Rightarrow> database \<Rightarrow> unit future \<times> reader_meta \<times> database" where
  "stop_effect env shard rm db =
     (case rparts rm of
        None \<Rightarrow> (Inr (), rm, db)
      | Some rp \<Rightarrow>
          (case fault_at (stop_fault env shard) stop_invoke_on of
             Some e \<Rightarrow> (Inl (thrown e), rm, db)
           | None \<Rightarrow>
               (case stop_on_shard (stop_fault env shard) rp db of
                  (r, db') \<Rightarrow> (r, rm\<lparr>rparts := None\<rparr>, db'))))"

section \<open>Reference definitions for the multi-range reader\<close>

text \<open>All the fragments of a buffer were read from the range with index \<open>r\<close>.\<close>

definition from_range :: "nat \<Rightarrow> ranged_fragment list \<Rightarrow> bool" where
  "from_range r buf = list_all (\<lambda>x. fst x = r) buf"

text \<open>
  The states of a multi-range reader in use: it is made around a reader whose buffer holds
  nothing but fragments of the range it is positioned on, then \<^verbatim>\<open>fill_buffer\<close> is called any
  number of times, and the consumer takes fragments from the buffer in between.
\<close>

inductive reachable :: "(nat \<Rightarrow> exception + produce list) \<Rightarrow> multi_range_reader \<Rightarrow> bool"
  for scripts :: "nat \<Rightarrow> exception + produce list" where
  made: "from_range (u_position rd) (u_buffer rd) \<Longrightarrow> reachable scripts (make_multi_range_reader rd n)"
| filled: "reachable scripts s \<Longrightarrow> fill_buffer scripts s = Inr s' \<Longrightarrow> reachable scripts s'"
| popped: "reachable scripts s \<Longrightarrow> reachable scripts (pop_fragments n s)"

definition reader_invariant :: "multi_range_reader \<Rightarrow> bool" where
  "reader_invariant s =
     (from_range (u_position (mr_reader s)) (u_buffer (mr_reader s)) \<and>
      (u_buffer (mr_reader s) = [] \<or> (mr_buffer s = [] \<and> \<not> mr_end_of_stream s)))"

text \<open>
  What the wrapped reader is still to deliver. A script delivers the fragments of its entries
  up to the entry that ends the stream, and nothing from a failure onwards; the ranges after
  the current one deliver their scripts in turn, up to a range that cannot be forwarded to.
\<close>

fun script_fragments :: "produce list \<Rightarrow> mutation_fragment_v2 list" where
  "script_fragments [] = []"
| "script_fragments (produce_fragments mfs eos # rest) =
     mfs @ (if eos then [] else script_fragments rest)"
| "script_fragments (produce_failure e # rest) = []"

fun later_ranges :: "(nat \<Rightarrow> exception + produce list) \<Rightarrow> nat list \<Rightarrow> ranged_fragment list" where
  "later_ranges scripts [] = []"
| "later_ranges scripts (i # rest) =
     (case scripts i of
        Inl e \<Rightarrow> []
      | Inr script \<Rightarrow> map (Pair i) (script_fragments script) @ later_ranges scripts rest)"

text \<open>
  The fragments that a multi-range reader has not yet fetched: the rest of the current range
  and the ranges between \<^verbatim>\<open>_it\<close> and \<^verbatim>\<open>_end\<close>.
\<close>

definition to_come :: "(nat \<Rightarrow> exception + produce list) \<Rightarrow> multi_range_reader \<Rightarrow> ranged_fragment list" where
  "to_come scripts s =
     (if u_end_of_stream (mr_reader s) then []
      else map (Pair (u_position (mr_reader s))) (script_fragments (u_pending (mr_reader s)))) @
     later_ranges scripts [Suc (mr_it s)..<mr_end s]"

text \<open>Everything between the consumer and the end of the last range, in stream order.\<close>

definition whole_stream :: "(nat \<Rightarrow> exception + produce list) \<Rightarrow> multi_range_reader \<Rightarrow> ranged_fragment list" where
  "whole_stream scripts s = mr_buffer s @ u_buffer (mr_reader s) @ to_come scripts s"

section \<open>Concrete inputs\<close>

text \<open>Two shards, tokens sharded by parity; shard 0 is \<open>saving\<close>, shard 1 is \<open>used\<close>.\<close>

definition ex_sharder :: "int \<Rightarrow> shard_id" where
  "ex_sharder t = nat (t mod 2)"

definition ex_ps :: "int \<Rightarrow> mutation_fragment_v2" where
  "ex_ps t = MF_partition_start \<lparr>key = \<lparr>token = t, partition_key = nat t\<rparr>,
     ps_memory_usage = 10, ps_fragment_memory_usage = 16\<rparr>"

definition ex_cr :: "nat \<Rightarrow> mutation_fragment_v2" where
  "ex_cr k = MF_clustering_row \<lparr>cr_key = k, cr_fragment_memory_usage = 8\<rparr>"

definition ex_readers :: "reader_meta list" where
  "ex_readers = [\<lparr>state = saving, rparts = None, dismantled_buffer = None\<rparr>,
                 \<lparr>state = used, rparts = None, dismantled_buffer = None\<rparr>]"

definition ex_buffer :: tracked_buffer where
  "ex_buffer = [ex_cr 1, ex_ps 0, ex_cr 2, ex_ps 1, ex_cr 3, ex_ps 2, ex_cr 4]"

definition ex_compaction_state :: "int \<Rightarrow> detached_compaction_state" where
  "ex_compaction_state t =
     \<lparr>cs_partition_start = \<lparr>key = \<lparr>token = t, partition_key = 7\<rparr>,
        ps_memory_usage = 10, ps_fragment_memory_usage = 16\<rparr>,
      cs_static_row = Some \<lparr>sr_cells = 3, sr_memory_usage = 20, sr_fragment_memory_usage = 28\<rparr>,
      cs_current_tombstone =
        Some \<lparr>rtc_position = 5, rtc_memory_usage = 4, rtc_fragment_memory_usage = 12\<rparr>\<rparr>"

definition ex_readers_with_body :: "reader_meta list" where
  "ex_readers_with_body =
     [\<lparr>state = saving, rparts = None, dismantled_buffer = Some [ex_cr 9]\<rparr>,
      \<lparr>state = used, rparts = None, dismantled_buffer = None\<rparr>]"

text \<open>
  A context of two shards for the query \<open>(0, 42)\<close>. Shard 0 looked its reader up: the
  reader is registered inactive under handle 5, with the permit 7 of the saved remote parts.
  Shard 1 has a reader in use.
\<close>

definition ex_permit :: "nat \<Rightarrow> reader_permit" where
  "ex_permit n = \<lparr>permit_id = n, permit_semaphore = 1, permit_max_result_size = None\<rparr>"

definition ex_reader :: flat_mutation_reader_v2 where
  "ex_reader = \<lparr>reader_permit_of = ex_permit 7, reader_buffer = [ex_cr 30], reader_source = 11\<rparr>"

definition ex_stats :: database_stats where
  "ex_stats = \<lparr>multishard_query_unpopped_fragments = 0, multishard_query_unpopped_bytes = 0,
     multishard_query_failed_reader_saves = 0, total_reads = 0, total_reads_failed = 0,
     short_mutation_queries = 0\<rparr>"

definition ex_db :: "(inactive_read_handle \<times> flat_mutation_reader_v2) list \<Rightarrow> database" where
  "ex_db irs = \<lparr>semaphore_id = 1, inactive_reads = irs, next_handle = 6, next_permit_id = 8,
     querier_cache = [], db_stats = ex_stats, closed_readers = [],
     unlimited_query_max_result_size = 1000, global_cache_hit_rate = 50\<rparr>"

definition ex_world :: world where
  "ex_world = \<lparr>dbs = [ex_db [(5, ex_reader)], ex_db []], mmq_log = []\<rparr>"

definition ex_cmd :: read_command where
  "ex_cmd = \<lparr>query_uuid = (0, 42), is_first_page = False, row_limit = 100,
     partition_row_limit = 10, partition_limit = 5, max_result_size = Some 4096,
     cmd_slice = 0, allow_short_read = True\<rparr>"

definition ex_rparts :: "inactive_read_handle option \<Rightarrow> remote_parts" where
  "ex_rparts h = \<lparr>rp_permit = ex_permit 7, rp_range = Some (0, 100), rp_slice = Some 0,
     rp_read_operation = True, rp_handle = h, rp_buffer = None\<rparr>"

definition ex_context :: read_context where
  "ex_context = \<lparr>ctx_permit = ex_permit 2, ctx_cmd = ex_cmd, ctx_ranges = [(0, 100)],
     ctx_readers =
       [\<lparr>state = successful_lookup, rparts = Some (ex_rparts (Some 5)), dismantled_buffer = None\<rparr>,
        \<lparr>state = used, rparts = Some (ex_rparts None), dismantled_buffer = None\<rparr>]\<rparr>"

definition ex_stopped_reader :: stopped_reader where
  "ex_stopped_reader = \<lparr>stopped_handle = 6, unconsumed_fragments = [ex_cr 31]\<rparr>"

definition ex_env :: environment where
  "ex_env = \<lparr>save_fault = (\<lambda>s. None), stop_fault = (\<lambda>s. None), lookup_fault = (\<lambda>s. None),
     permit_fault = (\<lambda>s. None), accounter_fault = None,
     compatible_querier = (\<lambda>q. True), local_shard = 0\<rparr>"

text \<open>
  A first page over two shards on which nothing is registered yet. The page read leaves
  shard 0 with a reader in state \<open>saving\<close>, parked on the semaphore under handle 5, and
  reports whether a limit was reached.
\<close>

definition ex_first_page :: read_command where
  "ex_first_page = ex_cmd\<lparr>is_first_page := True\<rparr>"

definition ex_start :: world where
  "ex_start = \<lparr>dbs = [ex_db [], ex_db []], mmq_log = []\<rparr>"

definition ex_result :: query_result where
  "ex_result = \<lparr>is_short_read = False, result_rows = [1, 2, 3]\<rparr>"

definition ex_page :: "bool \<Rightarrow> page_consume_result" where
  "ex_page limits =
     \<lparr>pcr_last_ckey = Some 3, pcr_result = ex_result, pcr_unconsumed_fragments = [ex_cr 4],
      pcr_compaction_state =
        \<lparr>are_limits_reached = limits, detach_state = ex_compaction_state 4\<rparr>\<rparr>"

definition ex_read_page :: "bool \<Rightarrow> read_page_fun" where
  "ex_read_page limits ctx w =
     (Inr (ex_page limits),
      ctx\<lparr>ctx_readers :=
        [\<lparr>state = saving, rparts = Some (ex_rparts (Some 5)), dismantled_buffer = None\<rparr>,
         default_reader_meta]\<rparr>,
      update_db 0 ((dbs w ! 0)\<lparr>inactive_reads := [(5, ex_reader)]\<rparr>) w)"

text \<open>Environments in which one call on shard 0 throws: while saving, and while stopping.\<close>

definition ex_env_save_fails :: environment where
  "ex_env_save_fails =
     ex_env\<lparr>save_fault := (\<lambda>s. if s = 0 then Some (save_cache_insert, injected_exception 1) else None)\<rparr>"

definition ex_env_stop_fails :: environment where
  "ex_env_stop_fails =
     ex_env\<lparr>stop_fault := (\<lambda>s. if s = 0 then Some (stop_unregister, injected_exception 2) else None)\<rparr>"

text \<open>The context and the databases as that page read leaves them.\<close>

definition ex_page_context :: read_context where
  "ex_page_context =
     \<lparr>ctx_permit = \<lparr>permit_id = 8, permit_semaphore = 1, permit_max_result_size = Some 4096\<rparr>,
      ctx_cmd = ex_first_page, ctx_ranges = [(0, 100)],
      ctx_readers =
        [\<lparr>state = saving, rparts = Some (ex_rparts (Some 5)), dismantled_buffer = None\<rparr>,
         default_reader_meta]\<rparr>"

definition ex_page_world :: world where
  "ex_page_world =
     \<lparr>dbs = [(ex_db [(5, ex_reader)])\<lparr>next_permit_id := 9\<rparr>, ex_db []], mmq_log = []\<rparr>"

text \<open>A page read that times out after the reader of shard 0 was stopped.\<close>

definition ex_read_page_timeout :: read_page_fun where
  "ex_read_page_timeout ctx w =
     (Inl (thrown timeout_exception), fst (snd (ex_read_page False ctx w)),
      snd (snd (ex_read_page False ctx w)))"

text \<open>Commands with a partition limit of zero, and without a maximal result size.\<close>

definition ex_zero_limit :: read_command where
  "ex_zero_limit = ex_first_page\<lparr>partition_limit := 0\<rparr>"

definition ex_no_max_size :: read_command where
  "ex_no_max_size = ex_first_page\<lparr>max_result_size := None\<rparr>"

text \<open>
  A reader over two ranges. The script of range 0 gives a partition start and a row, then
  ends the stream with an empty fill; the script of range 1 gives one partition start.
\<close>

definition ex_scripts :: "nat \<Rightarrow> exception + produce list" where
  "ex_scripts i =
     (if i = 0 then Inr [produce_fragments [ex_ps 0, ex_cr 1] False, produce_fragments [] True]
      else Inr [produce_fragments [ex_ps 2] True])"

definition ex_underlying :: underlying_reader where
  "ex_underlying = \<lparr>u_buffer = [], u_end_of_stream = False, u_position = 0,
     u_pending = [produce_fragments [ex_ps 0, ex_cr 1] False, produce_fragments [] True]\<rparr>"

definition ex_after_first_fill :: multi_range_reader where
  "ex_after_first_fill =
     \<lparr>mr_buffer = [(0, ex_ps 0), (0, ex_cr 1)], mr_end_of_stream = False,
      mr_reader = \<lparr>u_buffer = [], u_end_of_stream = False, u_position = 0,
        u_pending = [produce_fragments [] True]\<rparr>,
      mr_it = 0, mr_end = 2\<rparr>"

definition ex_after_second_fill :: multi_range_reader where
  "ex_after_second_fill =
     \<lparr>mr_buffer = [(1, ex_ps 2)], mr_end_of_stream = False,
      mr_reader = \<lparr>u_buffer = [], u_end_of_stream = True, u_position = 1, u_pending = []\<rparr>,
      mr_it = 1, mr_end = 2\<rparr>"

section \<open>Properties of the combined buffer dismantling\<close>

lemma add_stats_of: "add mf (stats_of k d) = stats_of (mf # k) d"
  by (simp add: add_def stats_of_def ac_simps)

lemma add_discarded_stats_of: "add_discarded mf (stats_of k d) = stats_of k (mf # d)"
  by (simp add: add_discarded_def stats_of_def ac_simps)

lemma fold_add_stats_of: "fold add tmp (stats_of k d) = stats_of (rev tmp @ k) d"
  by (induction tmp arbitrary: k) (simp_all add: add_stats_of)

lemma fold_add_discarded_stats_of:
  "fold add_discarded tmp (stats_of k d) = stats_of k (rev tmp @ d)"
  by (induction tmp arbitrary: d) (simp_all add: add_discarded_stats_of)

lemma move_to_front_gen:
  "move_to_front tmp (stats, rm\<lparr>dismantled_buffer := Some b\<rparr>) =
     (fold add tmp stats, rm\<lparr>dismantled_buffer := Some (rev tmp @ b)\<rparr>)"
  by (induction tmp arbitrary: stats b) (simp_all add: emplace_front_def get_dismantled_buffer_def)

lemma move_to_front_touch:
  "move_to_front tmp (stats, touch_dismantled_buffer rm) = (fold add tmp stats, with_front (rev tmp) rm)"
  by (simp add: touch_dismantled_buffer_def move_to_front_gen with_front_def)

lemma length_routed [simp]: "length (routed sharder readers xs) = length readers"
  by (simp add: routed_def)

lemma nth_routed:
  "s < length readers \<Longrightarrow> routed sharder readers xs ! s =
     (if kept_partitions sharder readers s xs = [] then readers ! s
      else with_front (kept_partitions sharder readers s xs) (readers ! s))"
  by (simp add: routed_def)

lemma state_with_front [simp]: "state (with_front frs rm) = state rm"
  by (simp add: with_front_def)

lemma get_with_front [simp]:
  "get_dismantled_buffer (with_front frs rm) = frs @ get_dismantled_buffer rm"
  by (simp add: with_front_def get_dismantled_buffer_def)

lemma with_front_with_front [simp]: "with_front a (with_front b rm) = with_front (a @ b) rm"
  by (simp add: with_front_def get_dismantled_buffer_def)

lemma emplace_front_with_front [simp]: "emplace_front mf (with_front b rm) = with_front (mf # b) rm"
  by (simp add: with_front_def emplace_front_def get_dismantled_buffer_def)

lemma state_routed: "s < length readers \<Longrightarrow> state (routed sharder readers xs ! s) = state (readers ! s)"
  by (simp add: nth_routed)

lemma leading_Cons:
  "leading_fragments (x # xs) = (if is_partition_start x then [] else x # leading_fragments xs)"
  by (simp add: leading_fragments_def)

lemma no_stats_stats_of: "no_stats = stats_of [] []"
  by (simp add: no_stats_def stats_of_def)

lemma routed_Nil: "routed sharder readers [] = readers"
  by (simp add: routed_def map_nth)

lemma routed_skip:
  assumes "\<not> (is_partition_start x \<and> state (readers ! shard_of_fragment sharder x) = saving)"
  shows "routed sharder readers (x # xs) = routed sharder readers xs"
  using assms by (auto simp: routed_def)

lemma routed_keep:
  assumes "is_partition_start x" and "state (readers ! shard_of_fragment sharder x) = saving"
    and "shard_of_fragment sharder x < length readers"
  shows "routed sharder readers (x # xs) =
     (routed sharder readers xs)[shard_of_fragment sharder x :=
        with_front (x # leading_fragments xs) (routed sharder readers xs ! shard_of_fragment sharder x)]"
proof (rule nth_equalityI)
  show "length (routed sharder readers (x # xs)) =
        length ((routed sharder readers xs)[shard_of_fragment sharder x :=
        with_front (x # leading_fragments xs) (routed sharder readers xs ! shard_of_fragment sharder x)])"
    by simp
next
  fix i assume "i < length (routed sharder readers (x # xs))"
  then have i: "i < length readers" by simp
  show "routed sharder readers (x # xs) ! i =
     (routed sharder readers xs)[shard_of_fragment sharder x :=
        with_front (x # leading_fragments xs) (routed sharder readers xs ! shard_of_fragment sharder x)] ! i"
  proof (cases "i = shard_of_fragment sharder x")
    case True
    with assms i show ?thesis by (simp add: nth_routed)
  next
    case False
    with assms i show ?thesis by (simp add: nth_routed)
  qed
qed

lemma walk_invariant:
  assumes range: "\<forall>t. sharder t < length readers"
  shows "fold (dismantle_step sharder) (rev xs) ([], no_stats, readers) =
     (rev (leading_fragments xs),
      stats_of (saved_fragments sharder readers xs) (dropped_fragments sharder readers xs),
      routed sharder readers xs)"
proof (induction xs)
  case Nil
  show ?case by (simp add: leading_fragments_def no_stats_stats_of routed_Nil)
next
  case (Cons x xs)
  show ?case
  proof (cases "is_partition_start x")
    case False
    with Cons show ?thesis
      by (simp add: dismantle_step_def leading_Cons routed_skip)
  next
    case True
    then obtain ps where x: "x = MF_partition_start ps" by (cases x) simp_all
    have inr: "shard_of_fragment sharder x < length readers"
      using range x by simp
    show ?thesis
    proof (cases "state (readers ! shard_of_fragment sharder x) = saving")
      case False
      with Cons True inr show ?thesis
        by (simp add: dismantle_step_def Let_def leading_Cons routed_skip state_routed
            fold_add_discarded_stats_of add_discarded_stats_of)
    next
      case saving: True
      with Cons True inr show ?thesis
        by (simp add: dismantle_step_def Let_def leading_Cons routed_keep state_routed
            move_to_front_touch fold_add_stats_of add_stats_of)
    qed
  qed
qed

lemma dismantle_combined_buffer_eq:
  assumes "\<forall>t. sharder t < length readers"
  shows "dismantle_combined_buffer sharder readers buf pkey =
      (stats_of (leading_fragments buf @ saved_fragments sharder readers buf)
         (dropped_fragments sharder readers buf),
       (routed sharder readers buf)[sharder (token pkey) :=
          with_front (leading_fragments buf) (routed sharder readers buf ! sharder (token pkey))])"
  by (simp add: dismantle_combined_buffer_def walk_invariant [OF assms] Let_def
      move_to_front_touch fold_add_stats_of)

lemma rparts_with_front [simp]: "rparts (with_front frs rm) = rparts rm"
  by (simp add: with_front_def)

lemma nth_list_update_if: "s < length xs \<Longrightarrow> xs[i := y] ! s = (if i = s then y else xs ! s)"
  by (cases "i = s") simp_all

lemma dismantle_combined_buffer_shape:
  assumes "\<forall>t. sharder t < length readers"
  shows "length (snd (dismantle_combined_buffer sharder readers buf pkey)) = length readers"
    and "s < length readers \<Longrightarrow>
      state (snd (dismantle_combined_buffer sharder readers buf pkey) ! s) = state (readers ! s)"
    and "s < length readers \<Longrightarrow>
      rparts (snd (dismantle_combined_buffer sharder readers buf pkey) ! s) = rparts (readers ! s)"
  unfolding dismantle_combined_buffer_eq [OF assms]
  by (simp_all add: nth_routed nth_list_update_if)

lemma dismantle_compaction_state_shape:
  shows "length (snd (dismantle_compaction_state sharder readers cs)) = length readers"
    and "s < length readers \<Longrightarrow>
      state (snd (dismantle_compaction_state sharder readers cs) ! s) = state (readers ! s)"
    and "s < length readers \<Longrightarrow>
      rparts (snd (dismantle_compaction_state sharder readers cs) ! s) = rparts (readers ! s)"
  by (simp_all add: dismantle_compaction_state_def Let_def nth_list_update_if emplace_front_def
      touch_dismantled_buffer_def split: option.splits prod.splits)

lemma subseq_drop_prefix: "subseq (a @ b) c \<Longrightarrow> subseq b c"
proof -
  assume "subseq (a @ b) c"
  then obtain c1 c2 where "c = c1 @ c2" and "subseq b c2"
    by (auto dest: list_emb_appendD)
  then show "subseq b c"
    by (simp add: list_emb_append2)
qed

lemma kept_partitions_subseq:
  "subseq (leading_fragments xs @ kept_partitions sharder readers s xs) xs"
proof (induction xs)
  case Nil
  show ?case by (simp add: leading_fragments_def)
next
  case (Cons x xs)
  show ?case
  proof (cases "is_partition_start x")
    case False
    with Cons show ?thesis by (simp add: leading_Cons)
  next
    case True
    show ?thesis
    proof (cases "shard_of_fragment sharder x = s \<and> state (readers ! s) = saving")
      case keep: True
      with True Cons show ?thesis by (simp add: leading_Cons)
    next
      case False
      from subseq_drop_prefix [OF Cons] have "subseq (kept_partitions sharder readers s xs) (x # xs)"
        by (rule list_emb_Cons)
      with True False show ?thesis by (auto simp: leading_Cons)
    qed
  qed
qed

lemma routed_to_subseq: "subseq (routed_to sharder readers buf pkey s) buf"
  using kept_partitions_subseq [of buf sharder readers s]
    subseq_drop_prefix [OF kept_partitions_subseq [of buf sharder readers s]]
  by (cases "s = sharder (token pkey)") (simp_all add: routed_to_def)

text \<open>
  C2. \<^verbatim>\<open>dismantle_combined_buffer\<close> walks the buffer from tail to head with a scratch list.
  Afterwards the reader of every shard holds, in front of what its dismantled buffer held
  before and in the order of the stream, the partitions of the buffer that the sharder assigns
  to it, provided the reader is \<open>saving\<close>; the partitions of the other shards are dropped and
  counted as discarded; the fragments in front of the first partition start go to the shard of
  the last delivered partition key, whatever its state. No other reader changes. What a reader
  receives is a subsequence of the buffer: the order of the stream is preserved.
\<close>

theorem dismantle_combined_buffer_routes:
  assumes "\<forall>t. sharder t < length readers"
  shows "fst (dismantle_combined_buffer sharder readers buf pkey) =
           stats_of (leading_fragments buf @ saved_fragments sharder readers buf)
             (dropped_fragments sharder readers buf) \<and>
         length (snd (dismantle_combined_buffer sharder readers buf pkey)) = length readers \<and>
         (\<forall>s < length readers.
            snd (dismantle_combined_buffer sharder readers buf pkey) ! s =
              (if s = sharder (token pkey) \<or> kept_partitions sharder readers s buf \<noteq> []
               then with_front (routed_to sharder readers buf pkey s) (readers ! s)
               else readers ! s) \<and>
            subseq (routed_to sharder readers buf pkey s) buf)"
proof -
  let ?p = "sharder (token pkey)"
  have p: "?p < length readers" using assms by simp
  note eq = dismantle_combined_buffer_eq [OF assms, of buf pkey]
  show ?thesis
    unfolding eq using p
    by (auto simp: nth_routed nth_list_update routed_to_subseq) (simp_all add: routed_to_def)
qed

lemma ex_sharder_range: "ex_sharder t < length ex_readers"
proof -
  have "t mod 2 < 2" by simp
  then show ?thesis by (simp add: ex_sharder_def ex_readers_def nat_less_iff)
qed

theorem dismantle_combined_buffer_routes_witness:
  "(\<forall>t. ex_sharder t < length ex_readers) \<and>
   fst (dismantle_combined_buffer ex_sharder ex_readers ex_buffer \<lparr>token = 1, partition_key = 1\<rparr>) =
     \<lparr>partitions = 2, fragments = 5, bytes = 56,
      discarded_partitions = 1, discarded_fragments = 2, discarded_bytes = 24\<rparr> \<and>
   length (snd (dismantle_combined_buffer ex_sharder ex_readers ex_buffer
      \<lparr>token = 1, partition_key = 1\<rparr>)) = 2 \<and>
   snd (dismantle_combined_buffer ex_sharder ex_readers ex_buffer \<lparr>token = 1, partition_key = 1\<rparr>) ! 0 =
     \<lparr>state = saving, rparts = None,
      dismantled_buffer = Some [ex_ps 0, ex_cr 2, ex_ps 2, ex_cr 4]\<rparr> \<and>
   snd (dismantle_combined_buffer ex_sharder ex_readers ex_buffer \<lparr>token = 1, partition_key = 1\<rparr>) ! 1 =
     \<lparr>state = used, rparts = None, dismantled_buffer = Some [ex_cr 1]\<rparr>"
proof -
  let ?k = "\<lparr>token = 1, partition_key = 1\<rparr>"
  let ?D = "dismantle_combined_buffer ex_sharder ex_readers ex_buffer ?k"
  have r: "\<forall>t. ex_sharder t < length ex_readers"
    by (simp add: ex_sharder_range)
  note t = dismantle_combined_buffer_routes [OF r, of ex_buffer ?k]
  note defs = ex_readers_def ex_sharder_def ex_buffer_def ex_ps_def ex_cr_def
    routed_to_def with_front_def get_dismantled_buffer_def leading_fragments_def stats_of_def
  have len: "length ex_readers = 2" by (simp add: ex_readers_def)
  from t have a: "fst ?D = stats_of (leading_fragments ex_buffer @
      saved_fragments ex_sharder ex_readers ex_buffer) (dropped_fragments ex_sharder ex_readers ex_buffer)"
    by blast
  have a': "stats_of (leading_fragments ex_buffer @
      saved_fragments ex_sharder ex_readers ex_buffer) (dropped_fragments ex_sharder ex_readers ex_buffer) =
      \<lparr>partitions = 2, fragments = 5, bytes = 56,
      discarded_partitions = 1, discarded_fragments = 2, discarded_bytes = 24\<rparr>"
    by (simp add: defs)
  from t len have b: "length (snd ?D) = 2"
    by simp
  from t have c: "s < length ex_readers \<Longrightarrow> snd ?D ! s =
      (if s = ex_sharder (token ?k) \<or> kept_partitions ex_sharder ex_readers s ex_buffer \<noteq> []
       then with_front (routed_to ex_sharder ex_readers ex_buffer ?k s) (ex_readers ! s)
       else ex_readers ! s)" for s
    by blast
  have c0: "snd ?D ! 0 = \<lparr>state = saving, rparts = None,
      dismantled_buffer = Some [ex_ps 0, ex_cr 2, ex_ps 2, ex_cr 4]\<rparr>"
  proof -
    have "snd ?D ! 0 =
      (if 0 = ex_sharder (token ?k) \<or> kept_partitions ex_sharder ex_readers 0 ex_buffer \<noteq> []
       then with_front (routed_to ex_sharder ex_readers ex_buffer ?k 0) (ex_readers ! 0)
       else ex_readers ! 0)"
      by (rule c) (simp add: len)
    also have "\<dots> = \<lparr>state = saving, rparts = None,
      dismantled_buffer = Some [ex_ps 0, ex_cr 2, ex_ps 2, ex_cr 4]\<rparr>"
      by (simp add: defs)
    finally show ?thesis .
  qed
  have c1: "snd ?D ! 1 =
      \<lparr>state = used, rparts = None, dismantled_buffer = Some [ex_cr 1]\<rparr>"
  proof -
    have "snd ?D ! 1 =
      (if 1 = ex_sharder (token ?k) \<or> kept_partitions ex_sharder ex_readers 1 ex_buffer \<noteq> []
       then with_front (routed_to ex_sharder ex_readers ex_buffer ?k 1) (ex_readers ! 1)
       else ex_readers ! 1)"
      by (rule c) (simp add: len)
    also have "\<dots> = \<lparr>state = used, rparts = None, dismantled_buffer = Some [ex_cr 1]\<rparr>"
      by (simp add: defs)
    finally show ?thesis .
  qed
  show ?thesis
    using r a a' b c0 c1 by simp
qed

section \<open>Properties of the compaction state dismantling\<close>

text \<open>
  C6. \<^verbatim>\<open>dismantle_compaction_state\<close> picks the shard of the active partition start. When
  that shard's reader is \<open>saving\<close>, its dismantled buffer afterwards reads partition start,
  static row, range tombstone change, then what it held before, and the pieces are counted as
  kept; otherwise no reader changes and the pieces are counted as discarded.
\<close>

theorem dismantle_compaction_state_front_inserts:
  assumes "\<forall>t. sharder t < length readers"
  shows "dismantle_compaction_state sharder readers cs =
     (if state (readers ! sharder (token (key (cs_partition_start cs)))) = saving
      then (\<lparr>partitions = 1, fragments = compaction_state_fragment_count cs,
             bytes = compaction_state_bytes cs,
             discarded_partitions = 0, discarded_fragments = 0, discarded_bytes = 0\<rparr>,
            readers[sharder (token (key (cs_partition_start cs))) :=
              with_front (compaction_state_fragments cs)
                (readers ! sharder (token (key (cs_partition_start cs))))])
      else (\<lparr>partitions = 0, fragments = 0, bytes = 0,
             discarded_partitions = 1, discarded_fragments = compaction_state_fragment_count cs,
             discarded_bytes = compaction_state_bytes cs\<rparr>, readers))"
  by (cases "cs_static_row cs"; cases "cs_current_tombstone cs")
    (simp_all add: dismantle_compaction_state_def Let_def compaction_state_fragments_def
      compaction_state_fragment_count_def compaction_state_bytes_def no_stats_def
      add_rtc_def add_sr_def add_ps_def add_discarded_rtc_def add_discarded_sr_def
      add_discarded_ps_def touch_dismantled_buffer_def emplace_front_def with_front_def
      get_dismantled_buffer_def ac_simps)

theorem dismantle_compaction_state_front_inserts_witness:
  "(\<forall>t. ex_sharder t < length ex_readers_with_body) \<and>
   dismantle_compaction_state ex_sharder ex_readers_with_body (ex_compaction_state 4) =
     (\<lparr>partitions = 1, fragments = 3, bytes = 34,
       discarded_partitions = 0, discarded_fragments = 0, discarded_bytes = 0\<rparr>,
      [\<lparr>state = saving, rparts = None,
        dismantled_buffer = Some (compaction_state_fragments (ex_compaction_state 4) @ [ex_cr 9])\<rparr>,
       \<lparr>state = used, rparts = None, dismantled_buffer = None\<rparr>]) \<and>
   compaction_state_fragments (ex_compaction_state 4) =
     [MF_partition_start (cs_partition_start (ex_compaction_state 4)),
      MF_static_row \<lparr>sr_cells = 3, sr_memory_usage = 20, sr_fragment_memory_usage = 28\<rparr>,
      MF_range_tombstone_change
        \<lparr>rtc_position = 5, rtc_memory_usage = 4, rtc_fragment_memory_usage = 12\<rparr>] \<and>
   dismantle_compaction_state ex_sharder ex_readers_with_body (ex_compaction_state 5) =
     (\<lparr>partitions = 0, fragments = 0, bytes = 0,
       discarded_partitions = 1, discarded_fragments = 3, discarded_bytes = 34\<rparr>,
      ex_readers_with_body)"
proof -
  have r: "\<forall>t. ex_sharder t < length ex_readers_with_body"
  proof
    fix t :: int
    have "t mod 2 < 2" by simp
    then show "ex_sharder t < length ex_readers_with_body"
      by (simp add: ex_sharder_def ex_readers_with_body_def nat_less_iff)
  qed
  note defs = ex_sharder_def ex_readers_with_body_def ex_compaction_state_def
    compaction_state_fragments_def compaction_state_fragment_count_def
    compaction_state_bytes_def with_front_def get_dismantled_buffer_def
  have a: "dismantle_compaction_state ex_sharder ex_readers_with_body (ex_compaction_state 4) =
     (\<lparr>partitions = 1, fragments = 3, bytes = 34,
       discarded_partitions = 0, discarded_fragments = 0, discarded_bytes = 0\<rparr>,
      [\<lparr>state = saving, rparts = None,
        dismantled_buffer = Some (compaction_state_fragments (ex_compaction_state 4) @ [ex_cr 9])\<rparr>,
       \<lparr>state = used, rparts = None, dismantled_buffer = None\<rparr>])"
    unfolding dismantle_compaction_state_front_inserts [OF r] by (simp add: defs)
  have b: "dismantle_compaction_state ex_sharder ex_readers_with_body (ex_compaction_state 5) =
     (\<lparr>partitions = 0, fragments = 0, bytes = 0,
       discarded_partitions = 1, discarded_fragments = 3, discarded_bytes = 34\<rparr>,
      ex_readers_with_body)"
    unfolding dismantle_compaction_state_front_inserts [OF r] by (simp add: defs)
  have c: "compaction_state_fragments (ex_compaction_state 4) =
     [MF_partition_start (cs_partition_start (ex_compaction_state 4)),
      MF_static_row \<lparr>sr_cells = 3, sr_memory_usage = 20, sr_fragment_memory_usage = 28\<rparr>,
      MF_range_tombstone_change
        \<lparr>rtc_position = 5, rtc_memory_usage = 4, rtc_fragment_memory_usage = 12\<rparr>]"
    by (simp add: compaction_state_fragments_def ex_compaction_state_def)
  show ?thesis using r a b c by blast
qed

section \<open>Properties of the reader lifecycle\<close>

text \<open>
  C9. \<^verbatim>\<open>destroy_reader\<close> on a shard whose reader is \<open>used\<close> (its remote parts exist) moves it
  to \<open>saving\<close> and stores the handle and the unconsumed fragments of the stopped reader in
  the remote parts. In any other state it writes a warning, changes no \<^verbatim>\<open>reader_meta\<close>, and
  the future it returns is ready.
\<close>

theorem destroy_reader_transition:
  assumes "shard < length (ctx_readers ctx)"
  shows "(state (ctx_readers ctx ! shard) = used \<and> rparts (ctx_readers ctx ! shard) = Some rp \<longrightarrow>
      destroy_reader shard reader ctx w =
        (Inr (),
         ctx\<lparr>ctx_readers := (ctx_readers ctx)[shard :=
           \<lparr>state = saving,
            rparts = Some (rp\<lparr>rp_handle := Some (stopped_handle reader),
              rp_buffer := Some (unconsumed_fragments reader)\<rparr>),
            dismantled_buffer = dismantled_buffer (ctx_readers ctx ! shard)\<rparr>]\<rparr>,
         w)) \<and>
   (state (ctx_readers ctx ! shard) \<noteq> used \<longrightarrow>
      destroy_reader shard reader ctx w =
        (Inr (), ctx,
         w\<lparr>mmq_log := mmq_log w @
           [unexpected_dismantle_request (state (ctx_readers ctx ! shard))]\<rparr>))"
  by (cases "ctx_readers ctx ! shard") (simp add: destroy_reader_def set_reader_def Let_def)

theorem destroy_reader_transition_witness:
  "1 < length (ctx_readers ex_context) \<and>
   destroy_reader 1 ex_stopped_reader ex_context ex_world =
     (Inr (),
      ex_context\<lparr>ctx_readers :=
        [\<lparr>state = successful_lookup, rparts = Some (ex_rparts (Some 5)), dismantled_buffer = None\<rparr>,
         \<lparr>state = saving,
          rparts = Some ((ex_rparts (Some 6))\<lparr>rp_buffer := Some [ex_cr 31]\<rparr>),
          dismantled_buffer = None\<rparr>]\<rparr>,
      ex_world) \<and>
   destroy_reader 0 ex_stopped_reader ex_context ex_world =
     (Inr (), ex_context, ex_world\<lparr>mmq_log := [unexpected_dismantle_request successful_lookup]\<rparr>)"
proof -
  have u: "state (ctx_readers ex_context ! 1) = used \<and>
      rparts (ctx_readers ex_context ! 1) = Some (ex_rparts None)"
    by (simp add: ex_context_def)
  have n: "state (ctx_readers ex_context ! 0) \<noteq> used"
    by (simp add: ex_context_def)
  have l0: "0 < length (ctx_readers ex_context)" and l1: "1 < length (ctx_readers ex_context)"
    by (simp_all add: ex_context_def)
  have a: "destroy_reader 1 ex_stopped_reader ex_context ex_world =
     (Inr (),
      ex_context\<lparr>ctx_readers := (ctx_readers ex_context)[1 :=
        \<lparr>state = saving,
         rparts = Some ((ex_rparts None)\<lparr>rp_handle := Some (stopped_handle ex_stopped_reader),
           rp_buffer := Some (unconsumed_fragments ex_stopped_reader)\<rparr>),
         dismantled_buffer = dismantled_buffer (ctx_readers ex_context ! 1)\<rparr>]\<rparr>,
      ex_world)"
    using destroy_reader_transition [OF l1, of "ex_rparts None" ex_stopped_reader ex_world] u
    by blast
  have b: "destroy_reader 0 ex_stopped_reader ex_context ex_world =
     (Inr (), ex_context,
      ex_world\<lparr>mmq_log := mmq_log ex_world @
        [unexpected_dismantle_request (state (ctx_readers ex_context ! 0))]\<rparr>)"
    using destroy_reader_transition [OF l0, of "ex_rparts None" ex_stopped_reader ex_world] n
    by blast
  show ?thesis
    unfolding a b using l1
    by (simp add: ex_context_def ex_rparts_def ex_stopped_reader_def ex_world_def)
qed

text \<open>
  C5. On a shard whose reader was looked up, \<^verbatim>\<open>obtain_reader_permit\<close> hands out the permit of
  the saved remote parts. When \<^verbatim>\<open>create_reader\<close> then recovers the saved reader from the
  semaphore, it compares the reader's permit with the permit passed in: the reader is
  reused when they are the same permit, and the call fails with an internal error when they
  differ. The shard's reader is \<open>used\<close> afterwards in both cases.
\<close>

theorem create_reader_checks_permit:
  assumes "shard < length (ctx_readers ctx)" and "shard < smp_count w"
    and "state (ctx_readers ctx ! shard) = successful_lookup"
    and "rparts (ctx_readers ctx ! shard) = Some rp"
    and "rp_handle rp = Some h"
    and "map_of (inactive_reads (dbs w ! shard)) h = Some reader"
  shows "fst (obtain_reader_permit env shard ctx w) =
           Inr ((rp_permit rp)\<lparr>permit_max_result_size :=
             Some (get_max_result_size (ctx_cmd ctx) (dbs w ! shard))\<rparr>) \<and>
         fst (create_reader shard permit pr ps ctx w) =
           (if permit_id (reader_permit_of reader) = permit_id permit then Inr reader
            else Inl (thrown internal_error)) \<and>
         state (ctx_readers (fst (snd (create_reader shard permit pr ps ctx w))) ! shard) = used"
  using assms
  by (simp add: obtain_reader_permit_def set_max_result_size_def create_reader_def
      unregister_inactive_read_def set_reader_def Let_def)

theorem create_reader_checks_permit_witness:
  "fst (obtain_reader_permit ex_env 0 ex_context ex_world) =
     Inr \<lparr>permit_id = 7, permit_semaphore = 1, permit_max_result_size = Some 4096\<rparr> \<and>
   fst (create_reader 0 (ex_permit 7) (0, 100) 0 ex_context ex_world) = Inr ex_reader \<and>
   fst (create_reader 0 (ex_permit 8) (0, 100) 0 ex_context ex_world) =
     Inl (thrown internal_error) \<and>
   state (ctx_readers (fst (snd (create_reader 0 (ex_permit 8) (0, 100) 0 ex_context ex_world))) ! 0) =
     used"
proof -
  have h1: "0 < length (ctx_readers ex_context)" and h0: "0 < smp_count ex_world"
    and h2: "state (ctx_readers ex_context ! 0) = successful_lookup"
    and h3: "rparts (ctx_readers ex_context ! 0) = Some (ex_rparts (Some 5))"
    and h4: "rp_handle (ex_rparts (Some 5)) = Some 5"
    and h5: "map_of (inactive_reads (dbs ex_world ! 0)) 5 = Some ex_reader"
    by (simp_all add: ex_context_def ex_rparts_def ex_world_def ex_db_def smp_count_def)
  note t = create_reader_checks_permit [OF h1 h0 h2 h3 h4 h5]
  show ?thesis
    using t [of ex_env "ex_permit 7" "(0, 100)" 0] t [of ex_env "ex_permit 8" "(0, 100)" 0]
    by (simp add: ex_permit_def ex_reader_def ex_rparts_def ex_context_def ex_cmd_def
        get_max_result_size_def)
qed

section \<open>Properties of saving the readers\<close>

lemma save_reader_try_no_ub:
  "has_handle rm \<Longrightarrow> fst (save_reader_try fault uuid qr rm k c db) \<noteq> Some undefined_behaviour"
  by (auto simp: save_reader_try_def has_handle_def Let_def split: option.splits prod.splits)

lemma save_reader_on_shard_ready:
  "has_handle rm \<Longrightarrow> fst (save_reader_on_shard fault uuid qr rm k c db) = Inr ()"
  using save_reader_try_no_ub [of rm fault uuid qr k c db]
  by (auto simp: save_reader_on_shard_def split: prod.splits option.splits failure.splits)

lemma save_reader_ready:
  "has_handle (ctx_readers ctx ! shard) \<Longrightarrow> fst (save_reader env shard k c ctx w) = Inr ()"
  using save_reader_on_shard_ready [of "ctx_readers ctx ! shard" "save_fault env shard"
      "query_uuid (ctx_cmd ctx)" "ctx_ranges ctx" k c "dbs w ! shard"]
  by (auto simp: save_reader_def Let_def split: prod.splits option.splits sum.splits failure.splits)

lemma save_reader_ctx:
  "fst (snd (save_reader env shard k c ctx w)) = set_reader shard default_reader_meta ctx"
  by (auto simp: save_reader_def Let_def split: prod.splits option.splits sum.splits failure.splits)

lemma save_reader_smp_count:
  "smp_count (snd (snd (save_reader env shard k c ctx w))) = smp_count w"
  by (auto simp: save_reader_def Let_def smp_count_def update_db_def
      split: prod.splits option.splits sum.splits failure.splits)


lemma sum_list_map_update:
  fixes f :: "'a \<Rightarrow> 'b::ab_group_add"
  shows "i < length xs \<Longrightarrow> sum_list (map f (xs[i := y])) = sum_list (map f xs) - f (xs ! i) + f y"
proof (induction xs arbitrary: i)
  case Nil
  then show ?case by simp
next
  case (Cons x xs)
  then show ?case by (cases i) (simp_all add: algebra_simps)
qed

lemma failed_reader_saves_update_db:
  "i < smp_count w \<Longrightarrow>
   failed_reader_saves (update_db i db w) =
     failed_reader_saves w
       - multishard_query_failed_reader_saves (db_stats (dbs w ! i))
       + multishard_query_failed_reader_saves (db_stats db)"
  by (simp add: failed_reader_saves_def update_db_def smp_count_def sum_list_map_update)

lemma failed_reader_saves_log [simp]:
  "failed_reader_saves (w\<lparr>mmq_log := l\<rparr>) = failed_reader_saves w"
  by (simp add: failed_reader_saves_def)

lemma failed_after_try:
  "multishard_query_failed_reader_saves (db_stats (snd (save_reader_try fault uuid qr rm k c db))) =
   multishard_query_failed_reader_saves (db_stats db)"
  by (auto simp: save_reader_try_def Let_def unregister_inactive_read_def
      querier_cache_insert_def close_reader_def split: option.splits prod.splits)

lemma failed_after_bump:
  "multishard_query_failed_reader_saves (db_stats (bump_failed_reader_saves db)) =
   multishard_query_failed_reader_saves (db_stats db) + 1"
  by (simp add: bump_failed_reader_saves_def)

lemma save_reader_try_outcome_cong:
  "inactive_reads db = inactive_reads db' \<Longrightarrow>
   fst (save_reader_try fault uuid qr rm k c db) = fst (save_reader_try fault uuid qr rm k c db')"
  by (auto simp: save_reader_try_def Let_def unregister_inactive_read_def
      split: option.splits prod.splits)

lemma inactive_reads_bump [simp]:
  "inactive_reads (bump_failed_reader_saves db) = inactive_reads db"
  by (simp add: bump_failed_reader_saves_def)

lemma save_reader_counts:
  assumes "has_handle (ctx_readers ctx ! shard)" and "to_be_saved (ctx_readers ctx ! shard)"
    and "shard < smp_count w" and "local_shard env < smp_count w"
  shows "failed_reader_saves (snd (snd (save_reader env shard k c ctx w))) =
     failed_reader_saves w + (if save_step_throws env k c ctx w shard then 1 else 0)"
proof (cases "fault_at (save_fault env shard) save_invoke_on")
  case (Some e)
  with assms show ?thesis
    by (simp add: save_reader_def Let_def save_step_throws_def failed_reader_saves_update_db
        failed_after_bump)
next
  case None
  let ?t = "save_reader_try (save_fault env shard) (query_uuid (ctx_cmd ctx)) (ctx_ranges ctx)
      (ctx_readers ctx ! shard) k c (dbs w ! shard)"
  have nub: "fst ?t \<noteq> Some undefined_behaviour"
    using assms(1) by (rule save_reader_try_no_ub)
  have f: "multishard_query_failed_reader_saves (db_stats (snd ?t)) =
      multishard_query_failed_reader_saves (db_stats (dbs w ! shard))"
    by (rule failed_after_try)
  obtain o' db' where t: "?t = (o', db')" by (cases ?t)
  with nub f have o': "o' \<noteq> Some undefined_behaviour"
    and db': "multishard_query_failed_reader_saves (db_stats db') =
      multishard_query_failed_reader_saves (db_stats (dbs w ! shard))" by simp_all
  show ?thesis
  proof (cases o')
    case None
    with \<open>fault_at (save_fault env shard) save_invoke_on = None\<close> t db' assms show ?thesis
      by (simp add: save_reader_def Let_def save_step_throws_def save_reader_on_shard_def
          failed_reader_saves_update_db)
  next
    case (Some fl)
    with o' obtain e where "fl = thrown e" by (cases fl) simp_all
    with Some \<open>fault_at (save_fault env shard) save_invoke_on = None\<close> t db' assms show ?thesis
      by (simp add: save_reader_def Let_def save_step_throws_def save_reader_on_shard_def
          failed_reader_saves_update_db failed_after_bump)
  qed
qed

lemma save_reader_frame:
  assumes "s \<noteq> shard" and "s < smp_count w"
  shows "inactive_reads (dbs (snd (snd (save_reader env shard k c ctx w))) ! s) =
     inactive_reads (dbs w ! s)"
  using assms
  by (auto simp: save_reader_def Let_def update_db_def smp_count_def nth_list_update_if
      split: prod.splits option.splits sum.splits failure.splits)


lemma save_step_throws_cong:
  assumes "ctx_readers ctx1 ! s = ctx_readers ctx ! s" and "ctx_cmd ctx1 = ctx_cmd ctx"
    and "ctx_ranges ctx1 = ctx_ranges ctx"
    and "inactive_reads (dbs w1 ! s) = inactive_reads (dbs w ! s)"
  shows "save_step_throws env k c ctx1 w1 s = save_step_throws env k c ctx w s"
  using assms(1-3) save_reader_try_outcome_cong [OF assms(4)]
  by (simp add: save_step_throws_def cong: option.case_cong)

lemma default_not_to_be_saved [simp]: "\<not> to_be_saved default_reader_meta"
  by (simp add: to_be_saved_def default_reader_meta_def)

lemma save_each_run:
  assumes "distinct shards" and "\<forall>s \<in> set shards. s < smp_count w"
    and "local_shard env < smp_count w" and "length (ctx_readers ctx) = smp_count w"
    and "\<forall>s \<in> set shards. to_be_saved (ctx_readers ctx ! s) \<longrightarrow> has_handle (ctx_readers ctx ! s)"
  shows "fst (save_each env k c shards ctx w) = Inr () \<and>
     failed_reader_saves (snd (snd (save_each env k c shards ctx w))) =
       failed_reader_saves w + of_nat (length (filter (save_step_throws env k c ctx w) shards)) \<and>
     length (ctx_readers (fst (snd (save_each env k c shards ctx w)))) = smp_count w \<and>
     (\<forall>s < smp_count w. ctx_readers (fst (snd (save_each env k c shards ctx w))) ! s =
        (if s \<in> set shards \<and> to_be_saved (ctx_readers ctx ! s) then default_reader_meta
         else ctx_readers ctx ! s))"
  using assms
proof (induction shards arbitrary: ctx w)
  case Nil
  then show ?case by simp
next
  case (Cons shard shards)
  let ?st = "if to_be_saved (ctx_readers ctx ! shard)
             then save_reader env shard k c ctx w else (Inr (), ctx, w)"
  obtain r1 ctx1 w1 where st: "?st = (r1, ctx1, w1)" by (cases ?st)
  have sh: "shard < smp_count w" and nin: "shard \<notin> set shards" and dist: "distinct shards"
    using Cons.prems by simp_all
  have hh: "to_be_saved (ctx_readers ctx ! shard) \<Longrightarrow> has_handle (ctx_readers ctx ! shard)"
    using Cons.prems by simp
  have r1: "r1 = Inr ()"
    using st hh save_reader_ready [of ctx shard env k c w] by (auto split: if_splits)
  have ctx1: "ctx1 = (if to_be_saved (ctx_readers ctx ! shard)
                      then set_reader shard default_reader_meta ctx else ctx)"
    using st save_reader_ctx [of env shard k c ctx w] by (auto split: if_splits)
  have smp: "smp_count w1 = smp_count w"
    using st save_reader_smp_count [of env shard k c ctx w] by (auto split: if_splits)
  have cnt: "failed_reader_saves w1 =
      failed_reader_saves w + (if save_step_throws env k c ctx w shard then 1 else 0)"
  proof (cases "to_be_saved (ctx_readers ctx ! shard)")
    case True
    with st have "w1 = snd (snd (save_reader env shard k c ctx w))" by simp
    with save_reader_counts [OF hh [OF True] True sh Cons.prems(3), of k c] show ?thesis by simp
  next
    case False
    with st show ?thesis by (simp add: save_step_throws_def)
  qed
  have len1: "length (ctx_readers ctx1) = smp_count w1"
    using ctx1 smp Cons.prems(4) by (simp add: set_reader_def)
  have same: "ctx_readers ctx1 ! s = ctx_readers ctx ! s" if "s \<noteq> shard" for s
    using ctx1 that by (simp add: set_reader_def)
  have cmd1: "ctx_cmd ctx1 = ctx_cmd ctx" and rng1: "ctx_ranges ctx1 = ctx_ranges ctx"
    using ctx1 by (simp_all add: set_reader_def)
  have irs: "inactive_reads (dbs w1 ! s) = inactive_reads (dbs w ! s)"
    if "s \<noteq> shard" and "s < smp_count w" for s
  proof (cases "to_be_saved (ctx_readers ctx ! shard)")
    case True
    with st have "w1 = snd (snd (save_reader env shard k c ctx w))" by simp
    with save_reader_frame [OF that, of env k c ctx] show ?thesis by simp
  next
    case False
    with st show ?thesis by simp
  qed
  have thr: "save_step_throws env k c ctx1 w1 s = save_step_throws env k c ctx w s"
    if "s \<in> set shards" for s
  proof -
    from that nin have ne: "s \<noteq> shard" by auto
    from that Cons.prems(2) have lt: "s < smp_count w" by simp
    show ?thesis
      by (rule save_step_throws_cong [OF same [OF ne] cmd1 rng1 irs [OF ne lt]])
  qed
  have filt: "filter (save_step_throws env k c ctx1 w1) shards =
      filter (save_step_throws env k c ctx w) shards"
    by (rule filter_cong) (simp_all add: thr)
  have p2: "\<forall>s \<in> set shards. s < smp_count w1" using Cons.prems(2) smp by simp
  have p3: "local_shard env < smp_count w1" using Cons.prems(3) smp by simp
  have p5: "\<forall>s \<in> set shards.
      to_be_saved (ctx_readers ctx1 ! s) \<longrightarrow> has_handle (ctx_readers ctx1 ! s)"
  proof
    fix s assume s: "s \<in> set shards"
    with nin have "s \<noteq> shard" by auto
    with same have "ctx_readers ctx1 ! s = ctx_readers ctx ! s" by simp
    with s Cons.prems(5) show "to_be_saved (ctx_readers ctx1 ! s) \<longrightarrow> has_handle (ctx_readers ctx1 ! s)"
      by simp
  qed
  note ih = Cons.IH [OF dist p2 p3 len1 p5]
  have unfold: "save_each env k c (shard # shards) ctx w =
      (case save_each env k c shards ctx1 w1 of
         (r', ctx'', w'') \<Rightarrow> (join_futures r1 r', ctx'', w''))"
    using st r1 by (simp add: to_be_saved_def)
  have at_shard: "ctx_readers ctx1 ! shard =
      (if to_be_saved (ctx_readers ctx ! shard) then default_reader_meta
       else ctx_readers ctx ! shard)"
    using ctx1 sh Cons.prems(4) by (simp add: set_reader_def)
  obtain r2 ctx2 w2 where rest: "save_each env k c shards ctx1 w1 = (r2, ctx2, w2)"
    by (cases "save_each env k c shards ctx1 w1")
  from ih rest have r2: "r2 = Inr ()"
    and cnt2: "failed_reader_saves w2 = failed_reader_saves w1 +
      of_nat (length (filter (save_step_throws env k c ctx1 w1) shards))"
    and len2: "length (ctx_readers ctx2) = smp_count w1"
    and nth2: "\<And>s. s < smp_count w1 \<Longrightarrow> ctx_readers ctx2 ! s =
        (if s \<in> set shards \<and> to_be_saved (ctx_readers ctx1 ! s) then default_reader_meta
         else ctx_readers ctx1 ! s)"
    by simp_all
  have all: "save_each env k c (shard # shards) ctx w = (Inr (), ctx2, w2)"
    unfolding unfold rest using r1 r2 by (simp add: join_futures_def)
  have c2: "failed_reader_saves w2 = failed_reader_saves w +
      of_nat (length (filter (save_step_throws env k c ctx w) (shard # shards)))"
    using cnt2 cnt filt by simp
  have c4: "ctx_readers ctx2 ! s =
      (if s \<in> set (shard # shards) \<and> to_be_saved (ctx_readers ctx ! s) then default_reader_meta
       else ctx_readers ctx ! s)" if "s < smp_count w" for s
  proof (cases "s = shard")
    case True
    with nth2 [of shard] sh smp nin at_shard show ?thesis by simp
  next
    case False
    with nth2 [of s] that smp same [OF False] show ?thesis by simp
  qed
  show ?case
    unfolding all using c2 len2 smp c4 by simp
qed

lemma save_each_noop:
  "\<forall>s \<in> set shards. \<not> to_be_saved (ctx_readers ctx ! s) \<Longrightarrow>
   save_each env k c shards ctx w = (Inr (), ctx, w)"
  by (induction shards) (simp_all add: to_be_saved_def join_futures_def)


lemma save_readers_unfold:
  "query_uuid (ctx_cmd ctx) \<noteq> null_UUID \<Longrightarrow>
   save_readers sharder env buf cs ck ctx w =
     save_each env (key (cs_partition_start cs)) ck [0..<smp_count w]
       (dismantled_context sharder buf cs ctx) w"
  by (simp add: save_readers_def dismantled_context_def Let_def split: prod.splits)

lemma dismantled_context_shape:
  assumes "\<forall>t. sharder t < length (ctx_readers ctx)"
  shows "length (ctx_readers (dismantled_context sharder buf cs ctx)) = length (ctx_readers ctx)"
    and "s < length (ctx_readers ctx) \<Longrightarrow>
      state (ctx_readers (dismantled_context sharder buf cs ctx) ! s) = state (ctx_readers ctx ! s)"
    and "s < length (ctx_readers ctx) \<Longrightarrow>
      rparts (ctx_readers (dismantled_context sharder buf cs ctx) ! s) = rparts (ctx_readers ctx ! s)"
    and "ctx_cmd (dismantled_context sharder buf cs ctx) = ctx_cmd ctx"
    and "ctx_ranges (dismantled_context sharder buf cs ctx) = ctx_ranges ctx"
  by (simp_all add: dismantled_context_def dismantle_compaction_state_shape
      dismantle_combined_buffer_shape [OF assms])

lemma dismantled_context_ready:
  assumes "\<forall>t. sharder t < length (ctx_readers ctx)" and "ready_to_save ctx w"
  shows "s < smp_count w \<Longrightarrow> to_be_saved (ctx_readers (dismantled_context sharder buf cs ctx) ! s) \<Longrightarrow>
     has_handle (ctx_readers (dismantled_context sharder buf cs ctx) ! s)"
  using assms(2) dismantled_context_shape(2,3) [OF assms(1), of s buf cs]
  by (auto simp: ready_to_save_def to_be_saved_def has_handle_def list_all_length)

lemma save_readers_run:
  assumes "query_uuid (ctx_cmd ctx) \<noteq> null_UUID"
    and "\<forall>t. sharder t < length (ctx_readers ctx)"
    and "ready_to_save ctx w"
    and "local_shard env < smp_count w"
  shows "fst (save_readers sharder env buf cs ck ctx w) = Inr ()"
    and "failed_reader_saves (snd (snd (save_readers sharder env buf cs ck ctx w))) =
      failed_reader_saves w +
      of_nat (length (filter (save_step_throws env (key (cs_partition_start cs)) ck
        (dismantled_context sharder buf cs ctx) w) [0..<smp_count w]))"
    and "length (ctx_readers (fst (snd (save_readers sharder env buf cs ck ctx w)))) = smp_count w"
    and "s < smp_count w \<Longrightarrow>
      \<not> to_be_saved (ctx_readers (fst (snd (save_readers sharder env buf cs ck ctx w))) ! s)"
proof -
  let ?d = "dismantled_context sharder buf cs ctx"
  have len: "length (ctx_readers ?d) = smp_count w"
    using assms(3) dismantled_context_shape(1) [OF assms(2)] by (simp add: ready_to_save_def)
  have hh: "\<forall>s \<in> set [0..<smp_count w].
      to_be_saved (ctx_readers ?d ! s) \<longrightarrow> has_handle (ctx_readers ?d ! s)"
    using dismantled_context_ready [OF assms(2,3)] by simp
  have run: "fst (save_each env (key (cs_partition_start cs)) ck [0..<smp_count w] ?d w) = Inr () \<and>
     failed_reader_saves (snd (snd (save_each env (key (cs_partition_start cs)) ck
        [0..<smp_count w] ?d w))) =
       failed_reader_saves w + of_nat (length (filter (save_step_throws env
         (key (cs_partition_start cs)) ck ?d w) [0..<smp_count w])) \<and>
     length (ctx_readers (fst (snd (save_each env (key (cs_partition_start cs)) ck
        [0..<smp_count w] ?d w)))) = smp_count w \<and>
     (\<forall>s < smp_count w. ctx_readers (fst (snd (save_each env (key (cs_partition_start cs)) ck
        [0..<smp_count w] ?d w))) ! s =
        (if s \<in> set [0..<smp_count w] \<and> to_be_saved (ctx_readers ?d ! s) then default_reader_meta
         else ctx_readers ?d ! s))"
    by (rule save_each_run [OF _ _ assms(4) len hh]) simp_all
  note u = save_readers_unfold [OF assms(1), of sharder env buf cs ck w]
  show "fst (save_readers sharder env buf cs ck ctx w) = Inr ()"
    unfolding u using run by blast
  show "failed_reader_saves (snd (snd (save_readers sharder env buf cs ck ctx w))) =
      failed_reader_saves w +
      of_nat (length (filter (save_step_throws env (key (cs_partition_start cs)) ck ?d w)
        [0..<smp_count w]))"
    unfolding u using run by blast
  show "length (ctx_readers (fst (snd (save_readers sharder env buf cs ck ctx w)))) = smp_count w"
    unfolding u using run by blast
  show "\<not> to_be_saved (ctx_readers (fst (snd (save_readers sharder env buf cs ck ctx w))) ! s)"
    if "s < smp_count w"
  proof -
    from run that have "ctx_readers (fst (snd (save_each env (key (cs_partition_start cs)) ck
        [0..<smp_count w] ?d w))) ! s =
        (if s \<in> set [0..<smp_count w] \<and> to_be_saved (ctx_readers ?d ! s) then default_reader_meta
         else ctx_readers ?d ! s)" by blast
    with that show ?thesis unfolding u by (simp split: if_splits)
  qed
qed

lemma save_readers_smp_count:
  "smp_count (snd (snd (save_readers sharder env buf cs ck ctx w))) = smp_count w"
proof -
  have e: "smp_count (snd (snd (save_each env k c shards ctx' w'))) = smp_count w'"
    for k c shards ctx' w'
  proof (induction shards arbitrary: ctx' w')
    case Nil
    show ?case by simp
  next
    case (Cons a shards)
    show ?case
      using Cons [of "fst (snd (save_reader env a k c ctx' w'))"
            "snd (snd (save_reader env a k c ctx' w'))"]
        Cons [of ctx' w'] save_reader_smp_count [of env a k c ctx' w']
      by (auto split: prod.splits sum.splits failure.splits if_splits)
  qed
  show ?thesis
    by (simp add: save_readers_def Let_def e split: prod.splits)
qed

lemma save_readers_nothing_to_save:
  assumes "\<forall>t. sharder t < length (ctx_readers ctx)"
    and "length (ctx_readers ctx) = smp_count w"
    and "\<forall>s < smp_count w. \<not> to_be_saved (ctx_readers ctx ! s)"
  shows "fst (save_readers sharder env buf cs ck ctx w) = Inr ()"
    and "snd (snd (save_readers sharder env buf cs ck ctx w)) = w"
proof -
  let ?d = "dismantled_context sharder buf cs ctx"
  have n: "\<forall>s \<in> set [0..<smp_count w]. \<not> to_be_saved (ctx_readers ?d ! s)"
    using assms(2,3) dismantled_context_shape(2) [OF assms(1), of _ buf cs]
    by (simp add: to_be_saved_def)
  note no = save_each_noop [OF n, of env "key (cs_partition_start cs)" ck w]
  show "fst (save_readers sharder env buf cs ck ctx w) = Inr ()"
    by (cases "query_uuid (ctx_cmd ctx) = null_UUID")
      (simp_all add: save_readers_unfold no, simp add: save_readers_def)
  show "snd (snd (save_readers sharder env buf cs ck ctx w)) = w"
    by (cases "query_uuid (ctx_cmd ctx) = null_UUID")
      (simp_all add: save_readers_unfold no, simp add: save_readers_def)
qed


lemma stop_shard_ok:
  "stop_fault env shard = None \<Longrightarrow> fst (stop_shard env shard ctx w) = Inr ()"
  by (simp add: stop_shard_def stop_on_shard_def fault_at_def split: option.splits prod.splits)

lemma stop_each_ok:
  "\<forall>s. stop_fault env s = None \<Longrightarrow> fst (stop_each env shards ctx w) = Inr ()"
proof (induction shards arbitrary: ctx w)
  case Nil
  show ?case by simp
next
  case (Cons shard shards)
  obtain r1 ctx1 w1 where st: "stop_shard env shard ctx w = (r1, ctx1, w1)"
    by (cases "stop_shard env shard ctx w")
  with Cons.prems stop_shard_ok [of env shard ctx w] have "r1 = Inr ()" by simp
  with st Cons.IH [OF Cons.prems, of ctx1 w1] show ?case
    by (simp add: join_futures_def split: prod.splits)
qed

lemma stop_ok: "\<forall>s. stop_fault env s = None \<Longrightarrow> fst (stop env ctx w) = Inr ()"
  by (simp add: stop_def stop_each_ok)

lemma do_query_unfold:
  assumes "make_read_context (local_shard env) cmd ranges w = (c0, w0)"
    and "query_page sharder env read_page c0 w0 = (f, c1, w1)"
    and "f \<noteq> Inl undefined_behaviour"
  shows "do_query sharder env read_page cmd ranges w =
     (case fst (stop env c1 w1) of
        Inl e \<Rightarrow> (Inl e, snd (snd (stop env c1 w1)))
      | Inr u \<Rightarrow> (f, snd (snd (stop env c1 w1))))"
  using assms
  by (cases f; cases "stop env c1 w1")
    (auto simp: do_query_def split: sum.splits failure.splits)

lemma query_page_result:
  assumes "lookup_readers env c0 w0 = (Inr (), c1, w1)"
    and "read_page c1 w1 = (Inr r, ctx, w)"
    and "fst (save_readers sharder env (pcr_unconsumed_fragments r)
           (detach_state (pcr_compaction_state r)) (pcr_last_ckey r) ctx w) = Inr ()"
  shows "fst (query_page sharder env read_page c0 w0) = Inr (pcr_result r)"
  using assms
  by (auto simp: query_page_def split: prod.splits sum.splits)

lemma ex_sharder_lt_2: "ex_sharder t < 2"
proof -
  have "t mod 2 < 2" by simp
  then show ?thesis by (simp add: ex_sharder_def nat_less_iff)
qed

lemma ex_make_read_context:
  "make_read_context 0 ex_first_page [(0, 100)] ex_start =
     (ex_page_context\<lparr>ctx_readers := [default_reader_meta, default_reader_meta]\<rparr>,
      \<lparr>dbs = [(ex_db [])\<lparr>next_permit_id := 9\<rparr>, ex_db []], mmq_log = []\<rparr>)"
  by code_simp

lemma ex_read_page_result:
  "ex_read_page limits (ex_page_context\<lparr>ctx_readers := [default_reader_meta, default_reader_meta]\<rparr>)
     \<lparr>dbs = [(ex_db [])\<lparr>next_permit_id := 9\<rparr>, ex_db []], mmq_log = []\<rparr> =
   (Inr (ex_page limits), ex_page_context, ex_page_world)"
  by (simp add: ex_read_page_def ex_page_context_def ex_page_world_def update_db_def ex_db_def)

lemma ex_lookup_first_page:
  "lookup_readers env (ex_page_context\<lparr>ctx_readers := rs\<rparr>) w =
     (Inr (), ex_page_context\<lparr>ctx_readers := rs\<rparr>, w)"
  by (simp add: lookup_readers_def ex_page_context_def ex_first_page_def)

text \<open>
  C1. For a stateful query whose readers can be saved, \<^verbatim>\<open>save_readers\<close> returns a ready
  future whatever the save steps of the shards throw, and the counters
  \<^verbatim>\<open>multishard_query_failed_reader_saves\<close> grow by the number of shards whose save step
  threw. So does each \<^verbatim>\<open>save_reader\<close>: its future is ready, and it counts one failure when
  its step throws. The page that was read is then the result of the chain of \<^verbatim>\<open>do_query\<close>,
  and of \<^verbatim>\<open>do_query\<close> itself when no call of \<^verbatim>\<open>stop\<close> throws.
\<close>

theorem save_failures_are_swallowed:
  assumes "query_uuid (ctx_cmd ctx) \<noteq> null_UUID"
    and "\<forall>t. sharder t < length (ctx_readers ctx)"
    and "ready_to_save ctx w"
    and "local_shard env < smp_count w"
  shows "fst (save_readers sharder env buf cs ck ctx w) = Inr () \<and>
     failed_reader_saves (snd (snd (save_readers sharder env buf cs ck ctx w))) =
       failed_reader_saves w +
       of_nat (length (filter (save_step_throws env (key (cs_partition_start cs)) ck
         (dismantled_context sharder buf cs ctx) w) [0..<smp_count w])) \<and>
     (\<forall>shard < smp_count w. to_be_saved (ctx_readers ctx ! shard) \<longrightarrow>
        fst (save_reader env shard last_pkey last_ckey ctx w) = Inr () \<and>
        failed_reader_saves (snd (snd (save_reader env shard last_pkey last_ckey ctx w))) =
          failed_reader_saves w +
          (if save_step_throws env last_pkey last_ckey ctx w shard then 1 else 0)) \<and>
     (make_read_context (local_shard env) cmd ranges w_start = (c0, w0) \<and>
      lookup_readers env c0 w0 = (Inr (), c1, w1) \<and>
      read_page c1 w1 = (Inr r, ctx, w) \<longrightarrow>
        fst (query_page sharder env read_page c0 w0) = Inr (pcr_result r) \<and>
        ((\<forall>s. stop_fault env s = None) \<longrightarrow>
           fst (do_query sharder env read_page cmd ranges w_start) = Inr (pcr_result r)))"
proof -
  have a: "fst (save_readers sharder env buf cs ck ctx w) = Inr ()"
    by (rule save_readers_run(1) [OF assms])
  have b: "failed_reader_saves (snd (snd (save_readers sharder env buf cs ck ctx w))) =
       failed_reader_saves w +
       of_nat (length (filter (save_step_throws env (key (cs_partition_start cs)) ck
         (dismantled_context sharder buf cs ctx) w) [0..<smp_count w]))"
    by (rule save_readers_run(2) [OF assms])
  have c: "fst (save_reader env shard last_pkey last_ckey ctx w) = Inr () \<and>
      failed_reader_saves (snd (snd (save_reader env shard last_pkey last_ckey ctx w))) =
        failed_reader_saves w +
        (if save_step_throws env last_pkey last_ckey ctx w shard then 1 else 0)"
    if sh: "shard < smp_count w" and tbs: "to_be_saved (ctx_readers ctx ! shard)" for shard
  proof -
    from assms(3) sh tbs have hh: "has_handle (ctx_readers ctx ! shard)"
      by (simp add: ready_to_save_def list_all_length)
    from save_reader_ready [OF hh] save_reader_counts [OF hh tbs sh assms(4)]
    show ?thesis by simp
  qed
  have d: "fst (query_page sharder env read_page c0 w0) = Inr (pcr_result r) \<and>
      ((\<forall>s. stop_fault env s = None) \<longrightarrow>
         fst (do_query sharder env read_page cmd ranges w_start) = Inr (pcr_result r))"
    if h: "make_read_context (local_shard env) cmd ranges w_start = (c0, w0) \<and>
      lookup_readers env c0 w0 = (Inr (), c1, w1) \<and> read_page c1 w1 = (Inr r, ctx, w)"
  proof -
    have sv: "fst (save_readers sharder env (pcr_unconsumed_fragments r)
           (detach_state (pcr_compaction_state r)) (pcr_last_ckey r) ctx w) = Inr ()"
      by (rule save_readers_run(1) [OF assms])
    from h sv have qp: "fst (query_page sharder env read_page c0 w0) = Inr (pcr_result r)"
      using query_page_result [of env c0 w0 c1 w1 read_page r ctx w sharder] by blast
    obtain f cA wA where q: "query_page sharder env read_page c0 w0 = (f, cA, wA)"
      by (cases "query_page sharder env read_page c0 w0")
    with qp have f: "f = Inr (pcr_result r)" by simp
    from h have m: "make_read_context (local_shard env) cmd ranges w_start = (c0, w0)" by simp
    have "fst (do_query sharder env read_page cmd ranges w_start) = Inr (pcr_result r)"
      if ns: "\<forall>s. stop_fault env s = None"
      using do_query_unfold [OF m q] f stop_ok [OF ns, of cA wA] by simp
    with qp show ?thesis by blast
  qed
  show ?thesis
    using a b c d by blast
qed

theorem save_failures_are_swallowed_witness:
  "query_uuid (ctx_cmd ex_page_context) \<noteq> null_UUID \<and>
   (\<forall>t. ex_sharder t < length (ctx_readers ex_page_context)) \<and>
   ready_to_save ex_page_context ex_page_world \<and>
   local_shard ex_env_save_fails < smp_count ex_page_world \<and>
   save_step_throws ex_env_save_fails \<lparr>token = 4, partition_key = 7\<rparr> (Some 3)
     (dismantled_context ex_sharder [ex_cr 4] (ex_compaction_state 4) ex_page_context)
     ex_page_world 0 \<and>
   fst (save_reader ex_env_save_fails 0 \<lparr>token = 4, partition_key = 7\<rparr> (Some 3)
     ex_page_context ex_page_world) = Inr () \<and>
   fst (save_readers ex_sharder ex_env_save_fails [ex_cr 4] (ex_compaction_state 4) (Some 3)
     ex_page_context ex_page_world) = Inr () \<and>
   failed_reader_saves ex_page_world = 0 \<and>
   failed_reader_saves (snd (snd (save_readers ex_sharder ex_env_save_fails [ex_cr 4]
     (ex_compaction_state 4) (Some 3) ex_page_context ex_page_world))) = 1 \<and>
   fst (do_query ex_sharder ex_env_save_fails (ex_read_page True) ex_first_page [(0, 100)]
     ex_start) = Inr ex_result"
proof -
  have h1: "query_uuid (ctx_cmd ex_page_context) \<noteq> null_UUID"
    by (simp add: ex_page_context_def ex_first_page_def ex_cmd_def null_UUID_def)
  have l2: "length (ctx_readers ex_page_context) = 2"
    by (simp add: ex_page_context_def)
  have h2: "\<forall>t. ex_sharder t < length (ctx_readers ex_page_context)"
    unfolding l2 by (simp add: ex_sharder_lt_2)
  have h3: "ready_to_save ex_page_context ex_page_world"
    by code_simp
  have h4: "local_shard ex_env_save_fails < smp_count ex_page_world"
    by code_simp
  note t = save_failures_are_swallowed [OF h1 h2 h3 h4, where buf = "[ex_cr 4]"
      and cs = "ex_compaction_state 4" and ck = "Some 3" and cmd = ex_first_page
      and ranges = "[(0, 100)]" and w_start = ex_start
      and ?c0.0 = "ex_page_context\<lparr>ctx_readers := [default_reader_meta, default_reader_meta]\<rparr>"
      and ?w0.0 = "\<lparr>dbs = [(ex_db [])\<lparr>next_permit_id := 9\<rparr>, ex_db []], mmq_log = []\<rparr>"
      and ?c1.0 = "ex_page_context\<lparr>ctx_readers := [default_reader_meta, default_reader_meta]\<rparr>"
      and ?w1.0 = "\<lparr>dbs = [(ex_db [])\<lparr>next_permit_id := 9\<rparr>, ex_db []], mmq_log = []\<rparr>"
      and read_page = "ex_read_page True" and r = "ex_page True"
      and last_pkey = "\<lparr>token = 4, partition_key = 7\<rparr>" and last_ckey = "Some 3"]
  have thr: "save_step_throws ex_env_save_fails \<lparr>token = 4, partition_key = 7\<rparr> (Some 3)
     (dismantled_context ex_sharder [ex_cr 4] (ex_compaction_state 4) ex_page_context)
     ex_page_world 0"
    by code_simp
  have cnt: "length (filter (save_step_throws ex_env_save_fails
      (key (cs_partition_start (ex_compaction_state 4))) (Some 3)
      (dismantled_context ex_sharder [ex_cr 4] (ex_compaction_state 4) ex_page_context)
      ex_page_world) [0..<smp_count ex_page_world]) = 1"
    by code_simp
  have f0: "failed_reader_saves ex_page_world = 0"
    by code_simp
  have ls: "local_shard ex_env_save_fails = 0"
    by (simp add: ex_env_save_fails_def ex_env_def)
  have nf: "\<forall>s. stop_fault ex_env_save_fails s = None"
    by (simp add: ex_env_save_fails_def ex_env_def)
  have res: "pcr_result (ex_page True) = ex_result"
    by (simp add: ex_page_def)
  from t have a: "fst (save_readers ex_sharder ex_env_save_fails [ex_cr 4] (ex_compaction_state 4)
      (Some 3) ex_page_context ex_page_world) = Inr ()"
    by blast
  from t cnt f0 have b: "failed_reader_saves (snd (snd (save_readers ex_sharder ex_env_save_fails
      [ex_cr 4] (ex_compaction_state 4) (Some 3) ex_page_context ex_page_world))) = 1"
    by simp
  from t ls nf res ex_make_read_context ex_read_page_result [of True]
    ex_lookup_first_page [of ex_env_save_fails "[default_reader_meta, default_reader_meta]"]
  have c: "fst (do_query ex_sharder ex_env_save_fails (ex_read_page True) ex_first_page [(0, 100)]
     ex_start) = Inr ex_result"
    by simp
  have s0: "0 < smp_count ex_page_world \<and> to_be_saved (ctx_readers ex_page_context ! 0)"
    by code_simp
  with t have d: "fst (save_reader ex_env_save_fails 0 \<lparr>token = 4, partition_key = 7\<rparr> (Some 3)
     ex_page_context ex_page_world) = Inr ()"
    by blast
  show ?thesis
    using h1 h2 h3 h4 thr a f0 b c d by blast
qed

text \<open>
  C4. After \<^verbatim>\<open>save_readers\<close> no reader of a stateful query is left in \<open>successful_lookup\<close> or
  \<open>saving\<close>: every reader that was saved has been exchanged for a default one. A second
  \<^verbatim>\<open>save_readers\<close> on the same context therefore calls no \<^verbatim>\<open>save_reader\<close>, and leaves the
  querier caches, the semaphores and the counters of all shards as the first call left them.
\<close>

theorem save_readers_twice:
  assumes "\<forall>t. sharder t < length (ctx_readers ctx)"
    and "ready_to_save ctx w"
    and "local_shard env < smp_count w"
  shows "fst (save_readers sharder env buf cs ck ctx w) = Inr () \<and>
     (query_uuid (ctx_cmd ctx) \<noteq> null_UUID \<longrightarrow>
        list_all (\<lambda>rm. \<not> to_be_saved rm)
          (ctx_readers (fst (snd (save_readers sharder env buf cs ck ctx w))))) \<and>
     fst (save_readers sharder env' buf' cs' ck'
            (fst (snd (save_readers sharder env buf cs ck ctx w)))
            (snd (snd (save_readers sharder env buf cs ck ctx w)))) = Inr () \<and>
     snd (snd (save_readers sharder env' buf' cs' ck'
            (fst (snd (save_readers sharder env buf cs ck ctx w)))
            (snd (snd (save_readers sharder env buf cs ck ctx w))))) =
       snd (snd (save_readers sharder env buf cs ck ctx w))"
proof (cases "query_uuid (ctx_cmd ctx) = null_UUID")
  case True
  then show ?thesis by (simp add: save_readers_def)
next
  case False
  let ?c1 = "fst (snd (save_readers sharder env buf cs ck ctx w))"
  let ?w1 = "snd (snd (save_readers sharder env buf cs ck ctx w))"
  note run = save_readers_run [OF False assms]
  have smp: "smp_count ?w1 = smp_count w" by (rule save_readers_smp_count)
  have len: "length (ctx_readers ?c1) = smp_count ?w1" using run(3) smp by simp
  have none: "\<forall>s < smp_count ?w1. \<not> to_be_saved (ctx_readers ?c1 ! s)"
    using run(4) smp by simp
  have rng: "\<forall>t. sharder t < length (ctx_readers ?c1)"
    using assms(1,2) len smp by (simp add: ready_to_save_def)
  note second = save_readers_nothing_to_save [OF rng len none, of env' buf' cs' ck']
  have cleared: "list_all (\<lambda>rm. \<not> to_be_saved rm) (ctx_readers ?c1)"
    using none len by (simp add: list_all_length)
  show ?thesis
    using run(1) cleared second by simp
qed

theorem save_readers_twice_witness:
  "(\<forall>t. ex_sharder t < length (ctx_readers ex_page_context)) \<and>
   ready_to_save ex_page_context ex_page_world \<and>
   local_shard ex_env < smp_count ex_page_world \<and>
   query_uuid (ctx_cmd ex_page_context) \<noteq> null_UUID \<and>
   fst (save_readers ex_sharder ex_env [ex_cr 4] (ex_compaction_state 4) (Some 3)
     ex_page_context ex_page_world) = Inr () \<and>
   map fst (querier_cache (dbs (snd (snd (save_readers ex_sharder ex_env [ex_cr 4]
     (ex_compaction_state 4) (Some 3) ex_page_context ex_page_world))) ! 0)) = [(0, 42)] \<and>
   list_all (\<lambda>rm. \<not> to_be_saved rm)
     (ctx_readers (fst (snd (save_readers ex_sharder ex_env [ex_cr 4] (ex_compaction_state 4)
        (Some 3) ex_page_context ex_page_world)))) \<and>
   snd (snd (save_readers ex_sharder ex_env_save_fails [ex_cr 6] (ex_compaction_state 5) (Some 8)
     (fst (snd (save_readers ex_sharder ex_env [ex_cr 4] (ex_compaction_state 4) (Some 3)
        ex_page_context ex_page_world)))
     (snd (snd (save_readers ex_sharder ex_env [ex_cr 4] (ex_compaction_state 4) (Some 3)
        ex_page_context ex_page_world))))) =
   snd (snd (save_readers ex_sharder ex_env [ex_cr 4] (ex_compaction_state 4) (Some 3)
     ex_page_context ex_page_world))"
proof -
  have l2: "length (ctx_readers ex_page_context) = 2"
    by (simp add: ex_page_context_def)
  have h1: "\<forall>t. ex_sharder t < length (ctx_readers ex_page_context)"
    unfolding l2 by (simp add: ex_sharder_lt_2)
  have h2: "ready_to_save ex_page_context ex_page_world"
    by code_simp
  have h3: "local_shard ex_env < smp_count ex_page_world"
    by code_simp
  have st: "query_uuid (ctx_cmd ex_page_context) \<noteq> null_UUID"
    by (simp add: ex_page_context_def ex_first_page_def ex_cmd_def null_UUID_def)
  have qc: "map fst (querier_cache (dbs (snd (snd (save_readers ex_sharder ex_env [ex_cr 4]
     (ex_compaction_state 4) (Some 3) ex_page_context ex_page_world))) ! 0)) = [(0, 42)]"
    by code_simp
  note t = save_readers_twice [OF h1 h2 h3, of "[ex_cr 4]" "ex_compaction_state 4" "Some 3"
      ex_env_save_fails "[ex_cr 6]" "ex_compaction_state 5" "Some 8"]
  show ?thesis
    using t h1 h2 h3 st qc by blast
qed

section \<open>Properties of stopping and of the query\<close>

lemma stop_shard_eq:
  assumes "shard < length (ctx_readers ctx)" and "shard < smp_count w"
  shows "stop_shard env shard ctx w =
     (case stop_effect env shard (ctx_readers ctx ! shard) (dbs w ! shard) of
        (r, rm', db') \<Rightarrow> (r, set_reader shard rm' ctx, update_db shard db' w))"
  using assms
  by (auto simp: stop_shard_def stop_effect_def set_reader_def update_db_def smp_count_def
      split: option.splits prod.splits)

lemma stop_each_run:
  assumes "distinct shards" and "\<forall>s \<in> set shards. s < smp_count w"
    and "length (ctx_readers ctx) = smp_count w"
  shows "length (ctx_readers (fst (snd (stop_each env shards ctx w)))) = smp_count w \<and>
     smp_count (snd (snd (stop_each env shards ctx w))) = smp_count w \<and>
     (\<forall>s < smp_count w.
        ctx_readers (fst (snd (stop_each env shards ctx w))) ! s =
          (if s \<in> set shards
           then fst (snd (stop_effect env s (ctx_readers ctx ! s) (dbs w ! s)))
           else ctx_readers ctx ! s) \<and>
        dbs (snd (snd (stop_each env shards ctx w))) ! s =
          (if s \<in> set shards
           then snd (snd (stop_effect env s (ctx_readers ctx ! s) (dbs w ! s)))
           else dbs w ! s))"
  using assms
proof (induction shards arbitrary: ctx w)
  case Nil
  then show ?case by simp
next
  case (Cons shard shards)
  have sh: "shard < smp_count w" and nin: "shard \<notin> set shards" and dist: "distinct shards"
    using Cons.prems by simp_all
  have shl: "shard < length (ctx_readers ctx)" using sh Cons.prems(3) by simp
  obtain r1 rm1 db1 where eff:
    "stop_effect env shard (ctx_readers ctx ! shard) (dbs w ! shard) = (r1, rm1, db1)"
    by (cases "stop_effect env shard (ctx_readers ctx ! shard) (dbs w ! shard)")
  let ?c1 = "set_reader shard rm1 ctx" and ?w1 = "update_db shard db1 w"
  have st: "stop_shard env shard ctx w = (r1, ?c1, ?w1)"
    using stop_shard_eq [OF shl sh, of env] eff by simp
  have smp1: "smp_count ?w1 = smp_count w" by (simp add: smp_count_def update_db_def)
  have len1: "length (ctx_readers ?c1) = smp_count ?w1"
    using Cons.prems(3) smp1 by (simp add: set_reader_def)
  have p2: "\<forall>s \<in> set shards. s < smp_count ?w1" using Cons.prems(2) smp1 by simp
  note ih = Cons.IH [OF dist p2 len1]
  obtain r2 c2 w2 where rest: "stop_each env shards ?c1 ?w1 = (r2, c2, w2)"
    by (cases "stop_each env shards ?c1 ?w1")
  have all: "stop_each env (shard # shards) ctx w = (join_futures r1 r2, c2, w2)"
    using st rest by simp
  from ih rest smp1 have l2: "length (ctx_readers c2) = smp_count w"
    and s2: "smp_count w2 = smp_count w"
    and n2: "\<And>s. s < smp_count w \<Longrightarrow>
        ctx_readers c2 ! s =
          (if s \<in> set shards
           then fst (snd (stop_effect env s (ctx_readers ?c1 ! s) (dbs ?w1 ! s)))
           else ctx_readers ?c1 ! s) \<and>
        dbs w2 ! s =
          (if s \<in> set shards
           then snd (snd (stop_effect env s (ctx_readers ?c1 ! s) (dbs ?w1 ! s)))
           else dbs ?w1 ! s)"
    by simp_all
  have at: "ctx_readers ?c1 ! shard = rm1" "dbs ?w1 ! shard = db1"
    using shl sh by (simp_all add: set_reader_def update_db_def smp_count_def)
  have other: "ctx_readers ?c1 ! s = ctx_readers ctx ! s" "dbs ?w1 ! s = dbs w ! s"
    if "s \<noteq> shard" for s
    using that by (simp_all add: set_reader_def update_db_def)
  have fin: "ctx_readers c2 ! s =
          (if s \<in> set (shard # shards)
           then fst (snd (stop_effect env s (ctx_readers ctx ! s) (dbs w ! s)))
           else ctx_readers ctx ! s) \<and>
        dbs w2 ! s =
          (if s \<in> set (shard # shards)
           then snd (snd (stop_effect env s (ctx_readers ctx ! s) (dbs w ! s)))
           else dbs w ! s)" if "s < smp_count w" for s
  proof (cases "s = shard")
    case True
    with n2 [of shard] sh nin at eff show ?thesis by simp
  next
    case False
    with n2 [OF that] other [OF False] show ?thesis by simp
  qed
  show ?case
    unfolding all using l2 s2 fin by simp
qed

lemma stop_effect_cleans:
  assumes "stop_fault env shard = None"
  shows "rparts (fst (snd (stop_effect env shard rm db))) = None"
    and "rparts rm = Some rp \<Longrightarrow> rp_handle rp = Some h \<Longrightarrow>
      map_of (inactive_reads (snd (snd (stop_effect env shard rm db)))) h = None"
    and "rparts rm = Some rp \<Longrightarrow> rp_handle rp = Some h \<Longrightarrow>
      map_of (inactive_reads db) h = Some reader \<Longrightarrow>
      closed_readers (snd (snd (stop_effect env shard rm db))) = reader # closed_readers db"
proof -
  have m: "map_of (filter (\<lambda>hr. fst hr \<noteq> h) irs) h = None" for irs :: "(nat \<times> flat_mutation_reader_v2) list"
    by (induction irs) auto
  show "rparts (fst (snd (stop_effect env shard rm db))) = None"
    using assms by (simp add: stop_effect_def fault_at_def split: option.splits prod.splits)
  show "rparts rm = Some rp \<Longrightarrow> rp_handle rp = Some h \<Longrightarrow>
      map_of (inactive_reads (snd (snd (stop_effect env shard rm db)))) h = None"
    using assms m
    by (auto simp: stop_effect_def stop_on_shard_def fault_at_def unregister_inactive_read_def
        close_reader_def split: option.splits prod.splits)
  show "rparts rm = Some rp \<Longrightarrow> rp_handle rp = Some h \<Longrightarrow>
      map_of (inactive_reads db) h = Some reader \<Longrightarrow>
      closed_readers (snd (snd (stop_effect env shard rm db))) = reader # closed_readers db"
    using assms
    by (auto simp: stop_effect_def stop_on_shard_def fault_at_def unregister_inactive_read_def
        close_reader_def split: option.splits prod.splits)
qed

lemma stop_cleans:
  assumes "length (ctx_readers ctx) = smp_count w" and "s < smp_count w"
    and "stop_fault env s = None"
  shows "rparts (ctx_readers (fst (snd (stop env ctx w))) ! s) = None"
    and "rparts (ctx_readers ctx ! s) = Some rp \<Longrightarrow> rp_handle rp = Some h \<Longrightarrow>
      map_of (inactive_reads (dbs (snd (snd (stop env ctx w))) ! s)) h = None"
    and "rparts (ctx_readers ctx ! s) = Some rp \<Longrightarrow> rp_handle rp = Some h \<Longrightarrow>
      map_of (inactive_reads (dbs w ! s)) h = Some reader \<Longrightarrow>
      closed_readers (dbs (snd (snd (stop env ctx w))) ! s) = reader # closed_readers (dbs w ! s)"
proof -
  have run: "ctx_readers (fst (snd (stop env ctx w))) ! s =
      fst (snd (stop_effect env s (ctx_readers ctx ! s) (dbs w ! s))) \<and>
     dbs (snd (snd (stop env ctx w))) ! s =
      snd (snd (stop_effect env s (ctx_readers ctx ! s) (dbs w ! s)))"
    using stop_each_run [of "[0..<smp_count w]" w ctx env] assms(1,2)
    by (simp add: stop_def)
  show "rparts (ctx_readers (fst (snd (stop env ctx w))) ! s) = None"
    using run stop_effect_cleans(1) [OF assms(3)] by simp
  show "rparts (ctx_readers ctx ! s) = Some rp \<Longrightarrow> rp_handle rp = Some h \<Longrightarrow>
      map_of (inactive_reads (dbs (snd (snd (stop env ctx w))) ! s)) h = None"
    using run stop_effect_cleans(2) [OF assms(3)] by simp
  show "rparts (ctx_readers ctx ! s) = Some rp \<Longrightarrow> rp_handle rp = Some h \<Longrightarrow>
      map_of (inactive_reads (dbs w ! s)) h = Some reader \<Longrightarrow>
      closed_readers (dbs (snd (snd (stop env ctx w))) ! s) = reader # closed_readers (dbs w ! s)"
    using run stop_effect_cleans(3) [OF assms(3)] by simp
qed

text \<open>
  C8, as the code has it: \<^verbatim>\<open>stop\<close> is not infallible. On the success path and on every error path of the chain,
  \<^verbatim>\<open>do_query\<close> runs \<^verbatim>\<open>stop\<close> on the context before it returns. On every shard where no call
  of \<^verbatim>\<open>stop\<close> throws, the remote parts leave the context, the handle they held is not
  registered any more, and the reader that was registered under it has been closed.
  \<^verbatim>\<open>stop\<close> has no handler of its own: when it is ready, \<^verbatim>\<open>do_query\<close> returns the outcome of
  the chain; when it fails, \<^verbatim>\<open>do_query\<close> fails with the exception of \<^verbatim>\<open>stop\<close>.
\<close>

theorem do_query_stops_on_every_path:
  assumes "make_read_context (local_shard env) cmd ranges w = (c0, w0)"
    and "query_page sharder env read_page c0 w0 = (f, c1, w1)"
    and "f \<noteq> Inl undefined_behaviour"
    and "length (ctx_readers c1) = smp_count w1"
  shows "snd (do_query sharder env read_page cmd ranges w) = snd (snd (stop env c1 w1)) \<and>
     (\<forall>s < smp_count w1. stop_fault env s = None \<longrightarrow>
        rparts (ctx_readers (fst (snd (stop env c1 w1))) ! s) = None \<and>
        (\<forall>rp h. rparts (ctx_readers c1 ! s) = Some rp \<and> rp_handle rp = Some h \<longrightarrow>
           map_of (inactive_reads (dbs (snd (do_query sharder env read_page cmd ranges w)) ! s)) h =
             None \<and>
           (\<forall>reader. map_of (inactive_reads (dbs w1 ! s)) h = Some reader \<longrightarrow>
              closed_readers (dbs (snd (do_query sharder env read_page cmd ranges w)) ! s) =
                reader # closed_readers (dbs w1 ! s)))) \<and>
     ((\<forall>s. stop_fault env s = None) \<longrightarrow> fst (do_query sharder env read_page cmd ranges w) = f) \<and>
     (fst (stop env c1 w1) = Inr () \<longrightarrow> fst (do_query sharder env read_page cmd ranges w) = f) \<and>
     (\<forall>e. fst (stop env c1 w1) = Inl e \<longrightarrow>
        fst (do_query sharder env read_page cmd ranges w) = Inl e)"
proof -
  note u = do_query_unfold [OF assms(1-3)]
  have w2: "snd (do_query sharder env read_page cmd ranges w) = snd (snd (stop env c1 w1))"
    unfolding u by (simp split: sum.splits)
  have ok: "fst (stop env c1 w1) = Inr () \<Longrightarrow> fst (do_query sharder env read_page cmd ranges w) = f"
    unfolding u by simp
  have bad: "fst (stop env c1 w1) = Inl e \<Longrightarrow>
      fst (do_query sharder env read_page cmd ranges w) = Inl e" for e
    unfolding u by simp
  have nf: "(\<forall>s. stop_fault env s = None) \<Longrightarrow>
      fst (do_query sharder env read_page cmd ranges w) = f"
    using ok stop_ok [of env c1 w1] by simp
  have cl: "rparts (ctx_readers (fst (snd (stop env c1 w1))) ! s) = None \<and>
        (\<forall>rp h. rparts (ctx_readers c1 ! s) = Some rp \<and> rp_handle rp = Some h \<longrightarrow>
           map_of (inactive_reads (dbs (snd (do_query sharder env read_page cmd ranges w)) ! s)) h =
             None \<and>
           (\<forall>reader. map_of (inactive_reads (dbs w1 ! s)) h = Some reader \<longrightarrow>
              closed_readers (dbs (snd (do_query sharder env read_page cmd ranges w)) ! s) =
                reader # closed_readers (dbs w1 ! s)))"
    if "s < smp_count w1" and "stop_fault env s = None" for s
    unfolding w2 using stop_cleans [OF assms(4) that] by blast
  show ?thesis
    using w2 ok bad nf cl by blast
qed

theorem do_query_stops_on_every_path_witness:
  "make_read_context (local_shard ex_env) ex_first_page [(0, 100)] ex_start =
     (ex_page_context\<lparr>ctx_readers := [default_reader_meta, default_reader_meta]\<rparr>,
      \<lparr>dbs = [(ex_db [])\<lparr>next_permit_id := 9\<rparr>, ex_db []], mmq_log = []\<rparr>) \<and>
   query_page ex_sharder ex_env ex_read_page_timeout
     (ex_page_context\<lparr>ctx_readers := [default_reader_meta, default_reader_meta]\<rparr>)
     \<lparr>dbs = [(ex_db [])\<lparr>next_permit_id := 9\<rparr>, ex_db []], mmq_log = []\<rparr> =
     (Inl (thrown timeout_exception), ex_page_context, ex_page_world) \<and>
   length (ctx_readers ex_page_context) = smp_count ex_page_world \<and>
   fst (do_query ex_sharder ex_env ex_read_page_timeout ex_first_page [(0, 100)] ex_start) =
     Inl (thrown timeout_exception) \<and>
   map_of (inactive_reads (dbs ex_page_world ! 0)) 5 = Some ex_reader \<and>
   map_of (inactive_reads
     (dbs (snd (do_query ex_sharder ex_env ex_read_page_timeout ex_first_page [(0, 100)] ex_start)) ! 0))
     5 = None \<and>
   closed_readers
     (dbs (snd (do_query ex_sharder ex_env ex_read_page_timeout ex_first_page [(0, 100)] ex_start)) ! 0) =
     [ex_reader] \<and>
   fst (do_query ex_sharder ex_env (ex_read_page False) ex_first_page [(0, 100)] ex_start) =
     Inr ex_result"
proof -
  let ?c0 = "ex_page_context\<lparr>ctx_readers := [default_reader_meta, default_reader_meta]\<rparr>"
  let ?w0 = "\<lparr>dbs = [(ex_db [])\<lparr>next_permit_id := 9\<rparr>, ex_db []], mmq_log = []\<rparr>"
  have h1: "make_read_context (local_shard ex_env) ex_first_page [(0, 100)] ex_start = (?c0, ?w0)"
    by code_simp
  have h2: "query_page ex_sharder ex_env ex_read_page_timeout ?c0 ?w0 =
      (Inl (thrown timeout_exception), ex_page_context, ex_page_world)"
    by code_simp
  have h2': "query_page ex_sharder ex_env (ex_read_page False) ?c0 ?w0 =
      (Inr ex_result, ex_page_context, ex_page_world)"
    by code_simp
  have h3: "Inl (thrown timeout_exception) \<noteq> (Inl undefined_behaviour :: query_result future)"
    and h3': "Inr ex_result \<noteq> (Inl undefined_behaviour :: query_result future)"
    by simp_all
  have h4: "length (ctx_readers ex_page_context) = smp_count ex_page_world"
    by code_simp
  note t = do_query_stops_on_every_path [OF h1 h2 h3 h4]
  note t' = do_query_stops_on_every_path [OF h1 h2' h3' h4]
  have nf: "\<forall>s. stop_fault ex_env s = None"
    by (simp add: ex_env_def)
  have s0: "0 < smp_count ex_page_world" by code_simp
  have rp: "rparts (ctx_readers ex_page_context ! 0) = Some (ex_rparts (Some 5)) \<and>
      rp_handle (ex_rparts (Some 5)) = Some 5"
    by (simp add: ex_page_context_def ex_rparts_def)
  have ir: "map_of (inactive_reads (dbs ex_page_world ! 0)) 5 = Some ex_reader"
    by code_simp
  have cr: "closed_readers (dbs ex_page_world ! 0) = []"
    by code_simp
  from t nf have a: "fst (do_query ex_sharder ex_env ex_read_page_timeout ex_first_page [(0, 100)]
      ex_start) = Inl (thrown timeout_exception)"
    by blast
  from t' nf have a': "fst (do_query ex_sharder ex_env (ex_read_page False) ex_first_page [(0, 100)]
      ex_start) = Inr ex_result"
    by blast
  from t s0 nf rp have b: "map_of (inactive_reads
     (dbs (snd (do_query ex_sharder ex_env ex_read_page_timeout ex_first_page [(0, 100)] ex_start)) ! 0))
     5 = None"
    by blast
  from t s0 nf rp ir have "closed_readers
     (dbs (snd (do_query ex_sharder ex_env ex_read_page_timeout ex_first_page [(0, 100)] ex_start)) ! 0) =
     ex_reader # closed_readers (dbs ex_page_world ! 0)"
    by blast
  with cr have c: "closed_readers
     (dbs (snd (do_query ex_sharder ex_env ex_read_page_timeout ex_first_page [(0, 100)] ex_start)) ! 0) =
     [ex_reader]"
    by simp
  show ?thesis
    using h1 h2 h4 a ir b c a' by blast
qed

text \<open>
  An error of \<^verbatim>\<open>stop\<close> does replace the outcome of the query: here the chain of a first
  page ends with its result, the call that unregisters the reader of shard 0 throws in
  \<^verbatim>\<open>stop\<close>, and \<^verbatim>\<open>do_query\<close> fails with that exception.
\<close>

theorem stop_failure_replaces_the_outcome:
  "make_read_context (local_shard ex_env_stop_fails) ex_first_page [(0, 100)] ex_start =
     (ex_page_context\<lparr>ctx_readers := [default_reader_meta, default_reader_meta]\<rparr>,
      \<lparr>dbs = [(ex_db [])\<lparr>next_permit_id := 9\<rparr>, ex_db []], mmq_log = []\<rparr>) \<and>
   fst (query_page ex_sharder ex_env_stop_fails (ex_read_page False)
     (ex_page_context\<lparr>ctx_readers := [default_reader_meta, default_reader_meta]\<rparr>)
     \<lparr>dbs = [(ex_db [])\<lparr>next_permit_id := 9\<rparr>, ex_db []], mmq_log = []\<rparr>) = Inr ex_result \<and>
   fst (do_query ex_sharder ex_env_stop_fails (ex_read_page False) ex_first_page [(0, 100)]
     ex_start) = Inl (thrown (injected_exception 2))"
  by code_simp

text \<open>
  C3. When the row limit, the per-partition row limit or the partition limit of the command
  is zero, both entry points return the default-constructed result with the cache hit rate of
  the table, and every database is as it was: no permit was issued for a read context, and
  no semaphore or querier cache was touched. Building a read context alone would have
  changed the local database.
\<close>

theorem zero_limit_returns_empty_result:
  assumes "row_limit cmd = 0 \<or> partition_row_limit cmd = 0 \<or> partition_limit cmd = 0"
    and "local_shard env < smp_count w"
  shows "query_mutations_on_all_shards sharder env read_page cmd ranges w =
       (Inr (default_result, global_cache_hit_rate (dbs w ! local_shard env)), w) \<and>
     query_data_on_all_shards sharder env read_page cmd ranges w =
       (Inr (default_result, global_cache_hit_rate (dbs w ! local_shard env)), w) \<and>
     snd (make_read_context (local_shard env) cmd ranges w) \<noteq> w"
proof -
  have "dbs (snd (make_read_context (local_shard env) cmd ranges w)) ! local_shard env \<noteq>
      dbs w ! local_shard env" if "local_shard env < smp_count w"
  proof -
    have "next_permit_id (dbs (snd (make_read_context (local_shard env) cmd ranges w)) !
        local_shard env) = Suc (next_permit_id (dbs w ! local_shard env))"
      using that by (simp add: make_read_context_def Let_def update_db_def smp_count_def)
    then show ?thesis by auto
  qed
  with assms(2) have "snd (make_read_context (local_shard env) cmd ranges w) \<noteq> w" by auto
  with assms(1) show ?thesis
    by (simp add: query_mutations_on_all_shards_def query_data_on_all_shards_def
        do_query_on_all_shards_def)
qed

theorem zero_limit_returns_empty_result_witness:
  "partition_limit ex_zero_limit = 0 \<and> local_shard ex_env < smp_count ex_start \<and>
   query_mutations_on_all_shards ex_sharder ex_env (\<lambda>m. ex_read_page True) ex_zero_limit
     [(0, 100)] ex_start = (Inr (\<lparr>is_short_read = False, result_rows = []\<rparr>, 50), ex_start) \<and>
   query_data_on_all_shards ex_sharder ex_env (\<lambda>m. ex_read_page True) ex_zero_limit
     [(0, 100)] ex_start = (Inr (\<lparr>is_short_read = False, result_rows = []\<rparr>, 50), ex_start) \<and>
   snd (make_read_context (local_shard ex_env) ex_zero_limit [(0, 100)] ex_start) \<noteq> ex_start"
proof -
  have z: "partition_limit ex_zero_limit = 0"
    by (simp add: ex_zero_limit_def)
  then have h: "row_limit ex_zero_limit = 0 \<or> partition_row_limit ex_zero_limit = 0 \<or>
      partition_limit ex_zero_limit = 0" by simp
  have l: "local_shard ex_env < smp_count ex_start" by code_simp
  note t = zero_limit_returns_empty_result [OF h l, of ex_sharder "\<lambda>m. ex_read_page True"
      "[(0, 100)]"]
  have v: "(default_result, global_cache_hit_rate (dbs ex_start ! local_shard ex_env)) =
      (\<lparr>is_short_read = False, result_rows = []\<rparr>, 50)"
    by code_simp
  show ?thesis
    using t l z unfolding v by blast
qed

text \<open>
  C10. When none of the three limits is zero, \<^verbatim>\<open>do_query_on_all_shards\<close> dereferences the
  command's \<^verbatim>\<open>max_result_size\<close> before any read starts. With the optional empty this is
  undefined behaviour and no read context is made; with a size \<open>m\<close> the memory accounter is
  asked for \<open>m\<close> and the query runs. \<^verbatim>\<open>get_max_result_size\<close> falls back to the database's
  maximum for unlimited queries when the optional is empty.
\<close>

theorem max_result_size_is_dereferenced:
  assumes "row_limit cmd \<noteq> 0" and "partition_row_limit cmd \<noteq> 0" and "partition_limit cmd \<noteq> 0"
    and "local_shard env < smp_count w"
  shows "(max_result_size cmd = None \<longrightarrow>
        query_mutations_on_all_shards sharder env read_page cmd ranges w =
          (Inl undefined_behaviour, w) \<and>
        query_data_on_all_shards sharder env read_page cmd ranges w =
          (Inl undefined_behaviour, w) \<and>
        get_max_result_size cmd db = unlimited_query_max_result_size db) \<and>
     (\<forall>m. max_result_size cmd = Some m \<and> accounter_fault env = None \<longrightarrow>
        fst (do_query_on_all_shards sharder env read_page cmd ranges w) =
          (case fst (do_query sharder env (read_page m) cmd ranges w) of
             Inl f \<Rightarrow> Inl f
           | Inr result \<Rightarrow>
               Inr (result,
                 global_cache_hit_rate
                   (dbs (snd (do_query sharder env (read_page m) cmd ranges w)) ! local_shard env))) \<and>
        get_max_result_size cmd db = m)"
  using assms
  by (auto simp: query_mutations_on_all_shards_def query_data_on_all_shards_def
      do_query_on_all_shards_def get_max_result_size_def
      split: prod.splits sum.splits failure.splits)

theorem max_result_size_is_dereferenced_witness:
  "local_shard ex_env < smp_count ex_start \<and> row_limit ex_no_max_size \<noteq> 0 \<and> partition_row_limit ex_no_max_size \<noteq> 0 \<and>
   partition_limit ex_no_max_size \<noteq> 0 \<and> max_result_size ex_no_max_size = None \<and>
   query_mutations_on_all_shards ex_sharder ex_env (\<lambda>m. ex_read_page True) ex_no_max_size
     [(0, 100)] ex_start = (Inl undefined_behaviour, ex_start) \<and>
   query_data_on_all_shards ex_sharder ex_env (\<lambda>m. ex_read_page True) ex_no_max_size
     [(0, 100)] ex_start = (Inl undefined_behaviour, ex_start) \<and>
   get_max_result_size ex_no_max_size (ex_db []) = 1000 \<and>
   max_result_size ex_first_page = Some 4096 \<and>
   fst (do_query_on_all_shards ex_sharder ex_env (\<lambda>m. ex_read_page True) ex_first_page
     [(0, 100)] ex_start) = Inr (ex_result, 50) \<and>
   get_max_result_size ex_first_page (ex_db []) = 4096"
proof -
  have n1: "row_limit ex_no_max_size \<noteq> 0" and n2: "partition_row_limit ex_no_max_size \<noteq> 0"
    and n3: "partition_limit ex_no_max_size \<noteq> 0" and n4: "max_result_size ex_no_max_size = None"
    by (simp_all add: ex_no_max_size_def ex_first_page_def ex_cmd_def)
  have m1: "row_limit ex_first_page \<noteq> 0" and m2: "partition_row_limit ex_first_page \<noteq> 0"
    and m3: "partition_limit ex_first_page \<noteq> 0" and m4: "max_result_size ex_first_page = Some 4096"
    by (simp_all add: ex_first_page_def ex_cmd_def)
  have l: "local_shard ex_env < smp_count ex_start" by code_simp
  note t = max_result_size_is_dereferenced [OF n1 n2 n3 l, where sharder = ex_sharder
      and read_page = "\<lambda>m. ex_read_page True" and ranges = "[(0, 100)]" and db = "ex_db []"]
  note t' = max_result_size_is_dereferenced [OF m1 m2 m3 l, where sharder = ex_sharder
      and read_page = "\<lambda>m. ex_read_page True" and ranges = "[(0, 100)]" and db = "ex_db []"]
  have af: "accounter_fault ex_env = None" by (simp add: ex_env_def)
  have u: "unlimited_query_max_result_size (ex_db []) = 1000" by (simp add: ex_db_def)
  have run: "(case fst (do_query ex_sharder ex_env (ex_read_page True) ex_first_page [(0, 100)]
         ex_start) of
       Inl f \<Rightarrow> Inl f
     | Inr result \<Rightarrow>
         Inr (result,
           global_cache_hit_rate
             (dbs (snd (do_query ex_sharder ex_env (ex_read_page True) ex_first_page [(0, 100)]
                ex_start)) ! local_shard ex_env))) = Inr (ex_result, 50)"
    by code_simp
  from t n4 u have a: "query_mutations_on_all_shards ex_sharder ex_env (\<lambda>m. ex_read_page True)
      ex_no_max_size [(0, 100)] ex_start = (Inl undefined_behaviour, ex_start) \<and>
    query_data_on_all_shards ex_sharder ex_env (\<lambda>m. ex_read_page True) ex_no_max_size
      [(0, 100)] ex_start = (Inl undefined_behaviour, ex_start) \<and>
    get_max_result_size ex_no_max_size (ex_db []) = 1000"
    by simp
  from t' m4 af run have b: "fst (do_query_on_all_shards ex_sharder ex_env (\<lambda>m. ex_read_page True)
      ex_first_page [(0, 100)] ex_start) = Inr (ex_result, 50) \<and>
    get_max_result_size ex_first_page (ex_db []) = 4096"
    by simp
  show ?thesis
    using l n1 n2 n3 n4 m4 a b by blast
qed

section \<open>Properties of the multi-range reader\<close>

lemma from_range_Nil [simp]: "from_range r []"
  by (simp add: from_range_def)

lemma from_range_append [simp]: "from_range r (a @ b) = (from_range r a \<and> from_range r b)"
  by (simp add: from_range_def)

lemma from_range_tagged [simp]: "from_range r (map (Pair r) mfs)"
  by (simp add: from_range_def list_all_iff)

lemma underlying_fill_buffer_pure:
  assumes "underlying_fill_buffer u = Inr u'" and "from_range (u_position u) (u_buffer u)"
  shows "u_position u' = u_position u" and "from_range (u_position u') (u_buffer u')"
proof -
  show p: "u_position u' = u_position u"
  proof (cases "u_pending u")
    case Nil
    with assms(1) show ?thesis by (auto simp: underlying_fill_buffer_def)
  next
    case (Cons p rest)
    with assms(1) show ?thesis by (cases p) (auto simp: underlying_fill_buffer_def)
  qed
  show "from_range (u_position u') (u_buffer u')"
  proof (cases "u_pending u")
    case Nil
    with assms show ?thesis by (auto simp: underlying_fill_buffer_def)
  next
    case (Cons p rest)
    with assms show ?thesis by (cases p) (auto simp: underlying_fill_buffer_def)
  qed
qed

lemma fill_and_move_drains:
  assumes "fill_and_move s0 = Inr t"
    and "from_range (u_position (mr_reader s0)) (u_buffer (mr_reader s0))"
    and "mr_buffer s0 = []"
  shows "u_buffer (mr_reader t) = []"
    and "from_range (u_position (mr_reader t)) (mr_buffer t)"
    and "mr_end_of_stream t = mr_end_of_stream s0"
proof -
  show "u_buffer (mr_reader t) = []" and "mr_end_of_stream t = mr_end_of_stream s0"
    using assms(1)
    by (auto simp: fill_and_move_def move_buffer_content_to_def split: if_splits sum.splits)
  show "from_range (u_position (mr_reader t)) (mr_buffer t)"
  proof (cases "u_buffer (mr_reader s0) = []")
    case True
    with assms(1) obtain u where u: "underlying_fill_buffer (mr_reader s0) = Inr u"
      and t: "t = move_buffer_content_to (s0\<lparr>mr_reader := u\<rparr>)"
      by (auto simp: fill_and_move_def split: sum.splits)
    from underlying_fill_buffer_pure [OF u assms(2)] t assms(3) show ?thesis
      by (simp add: move_buffer_content_to_def)
  next
    case False
    with assms show ?thesis
      by (auto simp: fill_and_move_def move_buffer_content_to_def)
  qed
qed

lemma fill_iteration_drains:
  assumes "fill_iteration scripts s = Inr (b, s')"
    and "from_range (u_position (mr_reader s)) (u_buffer (mr_reader s))"
    and "mr_buffer s = []"
  shows "u_buffer (mr_reader s') = []"
    and "from_range (u_position (mr_reader s')) (mr_buffer s')"
proof -
  have "u_buffer (mr_reader s') = [] \<and> from_range (u_position (mr_reader s')) (mr_buffer s')"
  proof (cases "u_buffer (mr_reader s) = [] \<and> u_end_of_stream (mr_reader s)")
    case False
    with assms(1) have "fill_and_move s = Inr s'"
      by (auto simp: fill_iteration_def split: if_splits sum.splits)
    from fill_and_move_drains(1,2) [OF this assms(2,3)] show ?thesis by simp
  next
    case True
    show ?thesis
    proof (cases b)
      case True
      with \<open>u_buffer (mr_reader s) = [] \<and> u_end_of_stream (mr_reader s)\<close> assms(1,3)
      show ?thesis
        by (auto simp: fill_iteration_def split: if_splits sum.splits)
    next
      case False
      with \<open>u_buffer (mr_reader s) = [] \<and> u_end_of_stream (mr_reader s)\<close> assms(1)
      obtain u where ff: "underlying_fast_forward_to scripts (Suc (mr_it s)) (mr_reader s) = Inr u"
        and fm: "fill_and_move (s\<lparr>mr_it := Suc (mr_it s), mr_reader := u\<rparr>) = Inr s'"
        by (auto simp: fill_iteration_def split: if_splits sum.splits)
      from ff have "u_buffer u = []"
        by (auto simp: underlying_fast_forward_to_def split: sum.splits)
      with fill_and_move_drains(1,2) [OF fm] assms(3) show ?thesis by simp
    qed
  qed
  then show "u_buffer (mr_reader s') = []"
    and "from_range (u_position (mr_reader s')) (mr_buffer s')" by simp_all
qed

lemma while_buffer_empty_drains:
  assumes "while_buffer_empty scripts s = Inr s'"
    and "from_range (u_position (mr_reader s)) (u_buffer (mr_reader s))"
    and "mr_buffer s = []"
  shows "u_buffer (mr_reader s') = [] \<and> from_range (u_position (mr_reader s')) (mr_buffer s')"
  using assms
proof (induction scripts s rule: while_buffer_empty.induct)
  case (1 scripts s)
  from "1.prems"(1,3) obtain b s1 where it: "fill_iteration scripts s = Inr (b, s1)"
    by (subst (asm) while_buffer_empty.simps) (auto split: sum.splits)
  note d = fill_iteration_drains [OF it "1.prems"(2,3)]
  show ?case
  proof (cases b)
    case True
    with it "1.prems"(1,3) have "s' = s1"
      by (subst (asm) while_buffer_empty.simps) simp
    with d show ?thesis by simp
  next
    case False
    with it "1.prems"(1,3) have rec: "while_buffer_empty scripts s1 = Inr s'"
      by (subst (asm) while_buffer_empty.simps) simp
    show ?thesis
    proof (cases "mr_buffer s1 = []")
      case True
      from d(1) have "from_range (u_position (mr_reader s1)) (u_buffer (mr_reader s1))" by simp
      with "1.IH" [of "(b, s1)" b s1] "1.prems"(3) it False rec True show ?thesis
        by simp
    next
      case nonempty: False
      with rec have "s' = s1"
        by (subst (asm) while_buffer_empty.simps) simp
      with d show ?thesis by simp
    qed
  qed
qed


lemma fill_buffer_post:
  assumes "reader_invariant s" and "fill_buffer scripts s = Inr s'"
  shows "u_buffer (mr_reader s') = [] \<and>
     take (length (mr_buffer s)) (mr_buffer s') = mr_buffer s \<and>
     from_range (u_position (mr_reader s')) (drop (length (mr_buffer s)) (mr_buffer s'))"
proof (cases "mr_end_of_stream s \<or> mr_buffer s \<noteq> []")
  case True
  with assms(2) have "s' = s"
    by (auto simp: fill_buffer_def split: if_splits)
  with True assms(1) show ?thesis
    by (auto simp: reader_invariant_def)
next
  case False
  with assms(2) have w: "while_buffer_empty scripts s = Inr s'"
    by (simp add: fill_buffer_def)
  from assms(1) have p: "from_range (u_position (mr_reader s)) (u_buffer (mr_reader s))"
    by (simp add: reader_invariant_def)
  from False have e: "mr_buffer s = []" by simp
  from while_buffer_empty_drains [OF w p e] e show ?thesis by simp
qed

lemma reachable_invariant: "reachable scripts s \<Longrightarrow> reader_invariant s"
proof (induction rule: reachable.induct)
  case (made rd n)
  then show ?case by (simp add: reader_invariant_def make_multi_range_reader_def)
next
  case (filled s s')
  from fill_buffer_post [OF filled.IH filled.hyps(2)] show ?case
    by (simp add: reader_invariant_def)
next
  case (popped s n)
  then show ?case by (auto simp: reader_invariant_def pop_fragments_def)
qed

lemma ex_first_fill:
  "fill_buffer ex_scripts (make_multi_range_reader ex_underlying 2) = Inr ex_after_first_fill"
  by code_simp

lemma ex_second_fill:
  "fill_buffer ex_scripts (pop_fragments 2 ex_after_first_fill) = Inr ex_after_second_fill"
  by code_simp

lemma underlying_fill_buffer_stream:
  assumes "underlying_fill_buffer u = Inr u'" and "\<not> u_end_of_stream u"
  shows "u_buffer u' @
      (if u_end_of_stream u' then []
       else map (Pair (u_position u')) (script_fragments (u_pending u'))) =
    u_buffer u @ map (Pair (u_position u)) (script_fragments (u_pending u))"
proof (cases "u_pending u")
  case Nil
  with assms show ?thesis by (auto simp: underlying_fill_buffer_def)
next
  case (Cons p rest)
  with assms show ?thesis by (cases p) (auto simp: underlying_fill_buffer_def)
qed

lemma fill_and_move_stream:
  assumes "fill_and_move s = Inr t"
    and "u_buffer (mr_reader s) = [] \<longrightarrow> \<not> u_end_of_stream (mr_reader s)"
  shows "whole_stream scripts t = whole_stream scripts s"
proof (cases "u_buffer (mr_reader s) = []")
  case True
  with assms(1) obtain u where u: "underlying_fill_buffer (mr_reader s) = Inr u"
    and t: "t = move_buffer_content_to (s\<lparr>mr_reader := u\<rparr>)"
    by (auto simp: fill_and_move_def split: sum.splits)
  from True assms(2) have ne: "\<not> u_end_of_stream (mr_reader s)" by simp
  from underlying_fill_buffer_stream [OF u ne] t ne True show ?thesis
    by (auto simp: whole_stream_def to_come_def move_buffer_content_to_def)
next
  case False
  with assms(1) show ?thesis
    by (auto simp: fill_and_move_def whole_stream_def to_come_def move_buffer_content_to_def)
qed

lemma fill_iteration_stream:
  assumes "fill_iteration scripts s = Inr (b, s')"
  shows "whole_stream scripts s' = whole_stream scripts s"
proof (cases "u_buffer (mr_reader s) = [] \<and> u_end_of_stream (mr_reader s)")
  case False
  with assms have fm: "fill_and_move s = Inr s'"
    by (auto simp: fill_iteration_def split: if_splits sum.splits)
  from False have "u_buffer (mr_reader s) = [] \<longrightarrow> \<not> u_end_of_stream (mr_reader s)" by simp
  from fill_and_move_stream [OF fm this] show ?thesis .
next
  case True
  show ?thesis
  proof (cases b)
    case last: True
    with True assms have "Suc (mr_it s) = mr_end s"
      and "s' = s\<lparr>mr_it := Suc (mr_it s), mr_end_of_stream := True\<rparr>"
      by (auto simp: fill_iteration_def split: if_splits sum.splits)
    with True show ?thesis
      by (simp add: whole_stream_def to_come_def)
  next
    case False
    with True assms obtain u where
      lt: "Suc (mr_it s) < mr_end s"
      and ff: "underlying_fast_forward_to scripts (Suc (mr_it s)) (mr_reader s) = Inr u"
      and fm: "fill_and_move (s\<lparr>mr_it := Suc (mr_it s), mr_reader := u\<rparr>) = Inr s'"
      by (auto simp: fill_iteration_def split: if_splits sum.splits)
    from ff obtain script where sc: "scripts (Suc (mr_it s)) = Inr script"
      and u: "u = (mr_reader s)\<lparr>u_buffer := [], u_end_of_stream := False,
          u_position := Suc (mr_it s), u_pending := script\<rparr>"
      by (auto simp: underlying_fast_forward_to_def split: sum.splits)
    from u have "u_buffer (mr_reader (s\<lparr>mr_it := Suc (mr_it s), mr_reader := u\<rparr>)) = [] \<longrightarrow>
        \<not> u_end_of_stream (mr_reader (s\<lparr>mr_it := Suc (mr_it s), mr_reader := u\<rparr>))"
      by simp
    from fill_and_move_stream [OF fm this]
    have "whole_stream scripts s' =
        whole_stream scripts (s\<lparr>mr_it := Suc (mr_it s), mr_reader := u\<rparr>)" .
    also from True u sc lt have "\<dots> = whole_stream scripts s"
      by (simp add: whole_stream_def to_come_def upt_conv_Cons [of "Suc (mr_it s)"])
    finally show ?thesis .
  qed
qed

lemma while_buffer_empty_stream:
  assumes "while_buffer_empty scripts s = Inr s'"
  shows "whole_stream scripts s' = whole_stream scripts s \<and>
     (mr_buffer s' = [] \<longrightarrow> mr_end_of_stream s')"
  using assms
proof (induction scripts s rule: while_buffer_empty.induct)
  case (1 scripts s)
  show ?case
  proof (cases "mr_buffer s = []")
    case False
    with "1.prems" have "s' = s"
      by (subst (asm) while_buffer_empty.simps) simp
    with False show ?thesis by simp
  next
    case empty: True
    with "1.prems" obtain b s1 where it: "fill_iteration scripts s = Inr (b, s1)"
      by (subst (asm) while_buffer_empty.simps) (auto split: sum.splits)
    note d = fill_iteration_stream [OF it]
    show ?thesis
    proof (cases b)
      case True
      with it "1.prems" empty have eq: "s' = s1"
        by (subst (asm) while_buffer_empty.simps) simp
      from True it have "mr_end_of_stream s1"
        by (auto simp: fill_iteration_def split: if_splits sum.splits)
      with d eq show ?thesis by simp
    next
      case False
      with it "1.prems" empty have rec: "while_buffer_empty scripts s1 = Inr s'"
        by (subst (asm) while_buffer_empty.simps) simp
      with "1.IH" [of "(b, s1)" b s1] empty it False d show ?thesis
        by simp
    qed
  qed
qed

lemma fill_buffer_stream:
  assumes "reader_invariant s" and "fill_buffer scripts s = Inr s'"
  shows "drop (length (mr_buffer s)) (mr_buffer s') @ to_come scripts s' =
      u_buffer (mr_reader s) @ to_come scripts s \<and>
     (mr_buffer s' = [] \<longrightarrow> mr_end_of_stream s')"
proof (cases "mr_end_of_stream s \<or> mr_buffer s \<noteq> []")
  case True
  with assms(2) have "s' = s"
    by (auto simp: fill_buffer_def split: if_splits)
  with True assms(1) show ?thesis
    by (auto simp: reader_invariant_def)
next
  case False
  with assms(2) have w: "while_buffer_empty scripts s = Inr s'"
    by (simp add: fill_buffer_def)
  from fill_buffer_post [OF assms] have "u_buffer (mr_reader s') = []" by simp
  with while_buffer_empty_stream [OF w] False show ?thesis
    by (simp add: whole_stream_def)
qed

lemma fill_buffer_moves_held:
  assumes "reader_invariant s" and "fill_buffer scripts s = Inr s'"
  shows "prefix (u_buffer (mr_reader s)) (drop (length (mr_buffer s)) (mr_buffer s'))"
proof (cases "u_buffer (mr_reader s) = []")
  case True
  then show ?thesis by simp
next
  case False
  with assms(1) have e: "mr_buffer s = []" and n: "\<not> mr_end_of_stream s"
    by (auto simp: reader_invariant_def)
  from False have it: "fill_iteration scripts s = Inr (False, move_buffer_content_to s)"
    by (simp add: fill_iteration_def fill_and_move_def)
  from False e have ne: "mr_buffer (move_buffer_content_to s) \<noteq> []"
    by (simp add: move_buffer_content_to_def)
  have "while_buffer_empty scripts s = while_buffer_empty scripts (move_buffer_content_to s)"
    using e it by (subst while_buffer_empty.simps) simp
  also have "\<dots> = Inr (move_buffer_content_to s)"
    using ne by (subst while_buffer_empty.simps) simp
  finally have "fill_buffer scripts s = Inr (move_buffer_content_to s)"
    using n by (simp add: fill_buffer_def)
  with assms(2) have "s' = move_buffer_content_to s" by simp
  with e show ?thesis
    by (simp add: move_buffer_content_to_def)
qed

lemma ex_to_come_before:
  "to_come ex_scripts (pop_fragments 2 ex_after_first_fill) = [(1, ex_ps 2)]"
  by code_simp

lemma ex_to_come_after: "to_come ex_scripts ex_after_second_fill = []"
  by (simp add: to_come_def ex_after_second_fill_def)

text \<open>
  C7. For a multi-range reader in use, each \<^verbatim>\<open>fill_buffer\<close> that returns only appends to the
  buffer, and the fragments it appends were all read from one range, the one the wrapped reader
  is positioned on. The buffer of the wrapped reader is empty afterwards and its content went
  into the buffer of the multi-range reader: the appended fragments start with what the
  wrapped reader held, and, followed by what is still to come after the call, they are what
  the wrapped reader held followed by what was still to come before the call, so that no
  fetched fragment is lost, repeated or reordered. The call returns an empty buffer only at
  the end of the stream.
\<close>

theorem fill_buffer_one_range_and_drained:
  assumes "reachable scripts s" and "fill_buffer scripts s = Inr s'"
  shows "u_buffer (mr_reader s') = [] \<and>
     take (length (mr_buffer s)) (mr_buffer s') = mr_buffer s \<and>
     from_range (u_position (mr_reader s')) (drop (length (mr_buffer s)) (mr_buffer s')) \<and>
     prefix (u_buffer (mr_reader s)) (drop (length (mr_buffer s)) (mr_buffer s')) \<and>
     drop (length (mr_buffer s)) (mr_buffer s') @ to_come scripts s' =
       u_buffer (mr_reader s) @ to_come scripts s \<and>
     (mr_buffer s' = [] \<longrightarrow> mr_end_of_stream s')"
  using fill_buffer_post [OF reachable_invariant [OF assms(1)] assms(2)]
    fill_buffer_moves_held [OF reachable_invariant [OF assms(1)] assms(2)]
    fill_buffer_stream [OF reachable_invariant [OF assms(1)] assms(2)]
  by simp

theorem fill_buffer_one_range_and_drained_witness:
  "reachable ex_scripts (pop_fragments 2 ex_after_first_fill) \<and>
   fill_buffer ex_scripts (pop_fragments 2 ex_after_first_fill) = Inr ex_after_second_fill \<and>
   u_buffer (mr_reader ex_after_second_fill) = [] \<and>
   mr_buffer (pop_fragments 2 ex_after_first_fill) = [] \<and>
   mr_buffer ex_after_second_fill = [(1, ex_ps 2)] \<and>
   from_range 1 (mr_buffer ex_after_second_fill) \<and>
   to_come ex_scripts (pop_fragments 2 ex_after_first_fill) = [(1, ex_ps 2)] \<and>
   mr_buffer ex_after_second_fill @ to_come ex_scripts ex_after_second_fill = [(1, ex_ps 2)]"
proof -
  have p: "from_range (u_position ex_underlying) (u_buffer ex_underlying)"
    by (simp add: ex_underlying_def from_range_def)
  have r: "reachable ex_scripts (pop_fragments 2 ex_after_first_fill)"
    by (rule reachable.popped, rule reachable.filled [OF reachable.made [OF p] ex_first_fill])
  note t = fill_buffer_one_range_and_drained [OF r ex_second_fill]
  have e: "mr_buffer (pop_fragments 2 ex_after_first_fill) = []"
    and h: "u_buffer (mr_reader (pop_fragments 2 ex_after_first_fill)) = []"
    by (simp_all add: pop_fragments_def ex_after_first_fill_def)
  have b: "mr_buffer ex_after_second_fill = [(1, ex_ps 2)]"
    and u: "u_position (mr_reader ex_after_second_fill) = 1"
    by (simp_all add: ex_after_second_fill_def)
  from t e u have "u_buffer (mr_reader ex_after_second_fill) = [] \<and>
      from_range 1 (mr_buffer ex_after_second_fill)"
    by simp
  moreover from t e h have "mr_buffer ex_after_second_fill @ to_come ex_scripts ex_after_second_fill =
      to_come ex_scripts (pop_fragments 2 ex_after_first_fill)"
    by simp
  ultimately show ?thesis
    using r ex_second_fill e b ex_to_come_before by simp
qed

end
